theory Spec2Isabelle
  imports Main "HOL-Library.Word"
begin

section \<open>Data model of the chat backend (backend/main.go)\<close>

subsection \<open>Wire formats\<close>

text \<open>
  \<^verbatim>\<open>OllamaRequest\<close> is the body of a generation call. The readiness probe builds the same
  three keys as a \<^verbatim>\<open>map[string]interface{}\<close>; both are represented by this record.
\<close>

record OllamaRequest =
  Model :: string
  Prompt :: string
  Stream :: bool

record OllamaStreamResponse =
  Response :: string
  Done :: bool

record OllamaModelDetails =
  Format :: string
  Family :: string
  Families :: "string list"
  ParameterSize :: string
  QuantizationLevel :: string

record OllamaModel =
  Name :: string
  ModifiedAt :: string
  Size :: "64 word"
  Digest :: string
  Details :: OllamaModelDetails

record OllamaModelsResponse =
  Models :: "OllamaModel list"

text \<open>
  A decoded JSON value, as \<^verbatim>\<open>json.Unmarshal\<close> stores it in an \<^verbatim>\<open>interface{}\<close>. \<open>JNull\<close> is
  the nil interface. Numbers are kept as integers: the backend only ever asks whether a
  value is nil.
\<close>

datatype json =
    JNull
  | JBool bool
  | JNumber int
  | JString string
  | JArray "json list"
  | JObject "(string \<times> json) list"

text \<open>
  The outcome of one HTTP request made through resty: either \<^verbatim>\<open>err != nil\<close> (transport
  failure, which includes the client timeout), or a response with a status code and a body.
\<close>

datatype 'b reply = TransportErr | Reply nat 'b

subsection \<open>Readiness status\<close>

text \<open>
  The values the backend assigns to the string \<^verbatim>\<open>modelStatus\<close>, one constructor per literal:
  \<^verbatim>\<open>initializing\<close>, \<^verbatim>\<open>starting\<close>, \<^verbatim>\<open>checking_models\<close>, \<^verbatim>\<open>error_connecting\<close>, \<^verbatim>\<open>error_api\<close>,
  \<^verbatim>\<open>error_parsing\<close>, \<^verbatim>\<open>no_models\<close>, \<^verbatim>\<open>model_found\<close>, \<^verbatim>\<open>testing_generation\<close>,
  \<^verbatim>\<open>error_generation\<close>, \<^verbatim>\<open>error_parsing_response\<close>, \<^verbatim>\<open>error_no_response\<close>,
  \<^verbatim>\<open>retry_N\<close> (from \<^verbatim>\<open>fmt.Sprintf("retry_%d", attempt)\<close>), \<^verbatim>\<open>ready\<close>, \<^verbatim>\<open>failed\<close>, \<^verbatim>\<open>disabled\<close>.
\<close>

datatype status =
    Initializing
  | Starting
  | CheckingModels
  | ErrorConnecting
  | ErrorAPI
  | ErrorParsing
  | NoModels
  | ModelFound
  | TestingGeneration
  | ErrorGeneration
  | ErrorParsingResponse
  | ErrorNoResponse
  | Retry nat
  | Ready
  | Failed
  | Disabled

text \<open>The errors the readiness functions return (one constructor per \<^verbatim>\<open>fmt.Errorf\<close>).\<close>

datatype error =
    FailedToConnect
  | BadStatus nat
  | FailedToParseModels
  | NoModelsInOllama
  | GenFailedToConnect nat
  | GenBadStatus nat nat string
  | GenFailedToParse nat
  | GenNoResponseContent nat
  | GenFailedAfter nat

subsection \<open>Effects\<close>

text \<open>
  Everything the backend does to the outside, in the order it does it: assignments to the
  process-wide variables, sleeps (in seconds), HTTP requests to the inference service,
  WebSocket writes (with whether the write succeeded) and rows saved to the chat history.
  Log lines are not recorded.
\<close>

datatype event =
    SetStatus status
  | SetModel string
  | StoreReady bool
  | StoreNeverReady bool
  | Sleep nat
  | HttpGet string
  | HttpPost string OllamaRequest
  | WsWrite string bool
  | SaveMessage string string

text \<open>
  What a connection handler or the status surface can read of the readiness at one moment:
  the values of \<^verbatim>\<open>modelStatus\<close>, \<^verbatim>\<open>modelReady\<close>, \<^verbatim>\<open>modelNeverReady\<close> and \<^verbatim>\<open>ollamaModel\<close>.
\<close>

record view =
  v_status :: status
  v_ready :: bool
  v_never :: bool
  v_model :: string

text \<open>
  The process-wide variables of main.go, the effects so far, the readiness variables as they
  stood after each effect (the states the program passes through, one per effect), and how
  many HTTP requests, WebSocket writes and random draws have been made (the index of the
  next answer of the environment).
\<close>

record world =
  ollamaURL :: string
  ollamaEnabled :: bool
  ollamaModel :: string
  modelReady :: bool
  modelStatus :: status
  modelNeverReady :: bool
  trace :: "event list"
  views :: "view list"
  http_calls :: nat
  ws_writes :: nat
  rand_calls :: nat

definition view_of :: "world \<Rightarrow> view" where
  "view_of w =
     \<lparr>v_status = modelStatus w, v_ready = modelReady w, v_never = modelNeverReady w,
      v_model = ollamaModel w\<rparr>"

text \<open>
  The environment: what the \<open>k\<close>-th HTTP request returns (buffered, or as the lines a
  \<^verbatim>\<open>bufio.Scanner\<close> reads from the raw body), whether the \<open>k\<close>-th WebSocket write succeeds,
  the \<open>k\<close>-th random number, and the three uses of \<^verbatim>\<open>json.Unmarshal\<close> (\<open>None\<close> when it
  returns an error).
\<close>

record env =
  http_reply :: "nat \<Rightarrow> string reply"
  stream_reply :: "nat \<Rightarrow> string list reply"
  ws_ok :: "nat \<Rightarrow> bool"
  rand_src :: "nat \<Rightarrow> nat"
  unmarshalModels :: "string \<Rightarrow> OllamaModelsResponse option"
  unmarshalObject :: "string \<Rightarrow> (string \<rightharpoonup> json) option"
  unmarshalStream :: "string \<Rightarrow> OllamaStreamResponse option"

text \<open>The variables as declared: status \<^verbatim>\<open>initializing\<close>, both flags false, no model.\<close>

definition init_world :: "string \<Rightarrow> bool \<Rightarrow> world" where
  "init_world url enabled =
     \<lparr>ollamaURL = url, ollamaEnabled = enabled, ollamaModel = [], modelReady = False,
      modelStatus = Initializing, modelNeverReady = False, trace = [], views = [],
      http_calls = 0, ws_writes = 0, rand_calls = 0\<rparr>"

text \<open>An effect is logged together with the readiness variables as they stand with it.\<close>

definition emit :: "event \<Rightarrow> world \<Rightarrow> world" where
  "emit e w = w\<lparr>trace := trace w @ [e], views := views w @ [view_of w]\<rparr>"

definition set_status :: "status \<Rightarrow> world \<Rightarrow> world" where
  "set_status s w = emit (SetStatus s) (w\<lparr>modelStatus := s\<rparr>)"

definition set_model :: "string \<Rightarrow> world \<Rightarrow> world" where
  "set_model m w = emit (SetModel m) (w\<lparr>ollamaModel := m\<rparr>)"

definition store_ready :: "bool \<Rightarrow> world \<Rightarrow> world" where
  "store_ready b w = emit (StoreReady b) (w\<lparr>modelReady := b\<rparr>)"

definition store_never_ready :: "bool \<Rightarrow> world \<Rightarrow> world" where
  "store_never_ready b w = emit (StoreNeverReady b) (w\<lparr>modelNeverReady := b\<rparr>)"

definition sleep :: "nat \<Rightarrow> world \<Rightarrow> world" where
  "sleep secs w = emit (Sleep secs) w"

definition httpGet :: "env \<Rightarrow> string \<Rightarrow> world \<Rightarrow> string reply \<times> world" where
  "httpGet env url w =
     (http_reply env (http_calls w), emit (HttpGet url) (w\<lparr>http_calls := Suc (http_calls w)\<rparr>))"

definition httpPost :: "env \<Rightarrow> string \<Rightarrow> OllamaRequest \<Rightarrow> world \<Rightarrow> string reply \<times> world" where
  "httpPost env url request w =
     (http_reply env (http_calls w),
      emit (HttpPost url request) (w\<lparr>http_calls := Suc (http_calls w)\<rparr>))"

definition httpPostStream ::
    "env \<Rightarrow> string \<Rightarrow> OllamaRequest \<Rightarrow> world \<Rightarrow> string list reply \<times> world" where
  "httpPostStream env url request w =
     (stream_reply env (http_calls w),
      emit (HttpPost url request) (w\<lparr>http_calls := Suc (http_calls w)\<rparr>))"

definition WriteMessage :: "env \<Rightarrow> string \<Rightarrow> world \<Rightarrow> bool \<times> world" where
  "WriteMessage env payload w =
     (ws_ok env (ws_writes w),
      emit (WsWrite payload (ws_ok env (ws_writes w))) (w\<lparr>ws_writes := Suc (ws_writes w)\<rparr>))"

text \<open>\<^verbatim>\<open>rand.Intn(n)\<close>: a number below \<open>n\<close>, here the next random number reduced modulo \<open>n\<close>.\<close>

definition Intn :: "env \<Rightarrow> nat \<Rightarrow> world \<Rightarrow> nat \<times> world" where
  "Intn env n w = (rand_src env (rand_calls w) mod n, w\<lparr>rand_calls := Suc (rand_calls w)\<rparr>)"

text \<open>\<^verbatim>\<open>saveMessage\<close>: one row to the chat history; a database error is only logged.\<close>

definition saveMessage :: "string \<Rightarrow> string \<Rightarrow> world \<Rightarrow> world" where
  "saveMessage sender message w = emit (SaveMessage sender message) w"

section \<open>The operations\<close>

subsection \<open>Stream relay: \<^verbatim>\<open>streamOllamaResponse\<close>\<close>

text \<open>
  The body of a streaming response is the finite list of its lines, each without its
  newline. \<^verbatim>\<open>bufio.NewScanner\<close> scans lines with a buffer of at most 64 KiB, which has to
  hold a line with its newline: at a line of \<open>MaxScanTokenSize\<close> bytes or more
  \<^verbatim>\<open>scanner.Scan()\<close> returns false (the error is only logged after the loop). The token
  of a shorter line is the line without a trailing carriage return.
\<close>

definition MaxScanTokenSize :: nat where
  "MaxScanTokenSize = 65536"

definition dropCR :: "string \<Rightarrow> string" where
  "dropCR data = (if data \<noteq> [] \<and> last data = CHR 0x0D then butlast data else data)"

text \<open>
  The scanner loop, with \<^verbatim>\<open>fullResponse\<close> as the accumulator. A token that does not
  decode is skipped (\<^verbatim>\<open>continue\<close>); a failed write and a chunk with \<^verbatim>\<open>done\<close> end the loop
  (\<^verbatim>\<open>break\<close>), the first before the text is appended, the second after.
\<close>

fun streamLoop :: "env \<Rightarrow> string list \<Rightarrow> string \<Rightarrow> world \<Rightarrow> string \<times> world" where
  "streamLoop env [] fullResponse w = (fullResponse, w)"
| "streamLoop env (line # rest) fullResponse w =
     (if MaxScanTokenSize \<le> length line then (fullResponse, w)
      else
        (case unmarshalStream env (dropCR line) of
           None \<Rightarrow> streamLoop env rest fullResponse w
         | Some result \<Rightarrow>
             (case WriteMessage env (Response result) w of
                (False, w') \<Rightarrow> (fullResponse, w')
              | (True, w') \<Rightarrow>
                  if Done result then (fullResponse @ Response result, w')
                  else streamLoop env rest (fullResponse @ Response result) w')))"

definition streamOllamaResponse :: "env \<Rightarrow> string \<Rightarrow> world \<Rightarrow> world" where
  "streamOllamaResponse env prompt w =
     (let ollamaGenerateURL = ollamaURL w @ ''/api/generate'';
          request = \<lparr>Model = ollamaModel w, Prompt = prompt, Stream = True\<rparr>
      in case httpPostStream env ollamaGenerateURL request w of
           (TransportErr, w1) \<Rightarrow> snd (WriteMessage env ''Error processing request'' w1)
         | (Reply code body, w1) \<Rightarrow>
             (case streamLoop env body [] w1 of
                (fullResponse, w2) \<Rightarrow> saveMessage ''AI'' fullResponse w2))"

subsection \<open>Connection handler: \<^verbatim>\<open>handleWebSocket\<close>\<close>

definition waitingMessages :: "string list" where
  "waitingMessages = [
     [CHR 0xF0, CHR 0x9F, CHR 0xA6, CHR 0xA5] @ '' Hold on! The AI is still having its morning coffee...'',
     [CHR 0xF0, CHR 0x9F, CHR 0x9A, CHR 0x80] @ '' The model is warming up its neural networks...'',
     [CHR 0xF0, CHR 0x9F, CHR 0xA7, CHR 0xA0] @ '' Please wait, the AI is doing some mental push-ups...'',
     [CHR 0xF0, CHR 0x9F, CHR 0x8E, CHR 0xAE] @ '' The AI is still loading, maybe it'' @ [CHR 0x27] @ ''s stuck on a loading screen?'',
     [CHR 0xE2, CHR 0x98, CHR 0x95] @ '' Brewing intelligence... This may take a moment!'',
     [CHR 0xF0, CHR 0x9F, CHR 0x8F, CHR 0x83] @ '' The neurons are still jogging to their positions...'',
     [CHR 0xF0, CHR 0x9F, CHR 0x93, CHR 0x9A] @ '' The AI is speed-reading the entire internet, be right with you!'',
     [CHR 0xF0, CHR 0x9F, CHR 0xA7, CHR 0x98] @ '' The model is meditating to achieve consciousness...'',
     [CHR 0xF0, CHR 0x9F, CHR 0x94, CHR 0x8C] @ '' Still downloading wisdom from the cloud...'',
     [CHR 0xF0, CHR 0x9F, CHR 0x8E, CHR 0xAA] @ '' The AI circus is still setting up its tent!''
   ]"

definition noAIMessages :: "string list" where
  "noAIMessages = [
     [CHR 0xF0, CHR 0x9F, CHR 0xA4, CHR 0x96] @ '' Sorry, our AI took the day off. It'' @ [CHR 0x27] @ ''s probably at the beach somewhere...'',
     [CHR 0xF0, CHR 0x9F, CHR 0x8E, CHR 0xAD] @ '' The AI is unavailable. It'' @ [CHR 0x27] @ ''s currently pursuing its dream of becoming a Broadway star.'',
     [CHR 0xF0, CHR 0x9F, CHR 0x8F, CHR 0x96, CHR 0xEF, CHR 0xB8, CHR 0x8F] @ '' AI.exe not found. Did you check if it went on vacation?'',
     [CHR 0xF0, CHR 0x9F, CHR 0x8E, CHR 0xA8] @ '' No AI here! The silicon brain decided to become an artist instead.'',
     [CHR 0xF0, CHR 0x9F, CHR 0x9A, CHR 0xAB] @ '' AI is MIA. Last seen contemplating the meaning of consciousness.'',
     [CHR 0xF0, CHR 0x9F, CHR 0x8E, CHR 0xAA] @ '' The AI has left the building. Elvis style.'',
     [CHR 0xF0, CHR 0x9F, CHR 0x8C, CHR 0x99] @ '' AI is offline. Probably dreaming of electric sheep.'',
     [CHR 0xF0, CHR 0x9F, CHR 0x93, CHR 0xB5] @ '' No AI signal detected. Maybe it'' @ [CHR 0x27] @ ''s in airplane mode?'',
     [CHR 0xF0, CHR 0x9F, CHR 0x8E, CHR 0x93] @ '' The AI is unavailable - it went back to school to study philosophy.'',
     [CHR 0xF0, CHR 0x9F, CHR 0xA7, CHR 0xB3] @ '' AI is out of office. Return date: undefined.''
   ]"

text \<open>
  The body of the read loop for one inbound message \<open>msg\<close>: the message is saved, then the
  two flags are consulted in the order of the source.
\<close>

definition handleMessage :: "env \<Rightarrow> string \<Rightarrow> world \<Rightarrow> world" where
  "handleMessage env msg w =
     (let w1 = saveMessage ''User'' msg w
      in if modelNeverReady w1 then
           (case Intn env (length noAIMessages) w1 of
              (i, w2) \<Rightarrow>
                (let noAIMsg = noAIMessages ! i
                 in saveMessage ''AI'' noAIMsg (snd (WriteMessage env noAIMsg w2))))
         else if \<not> modelReady w1 then
           (case Intn env (length waitingMessages) w1 of
              (i, w2) \<Rightarrow>
                (let waitMsg = waitingMessages ! i
                 in saveMessage ''AI'' waitMsg (snd (WriteMessage env waitMsg w2))))
         else streamOllamaResponse env msg w1)"

text \<open>
  The read loop over the messages that arrive before \<^verbatim>\<open>ReadMessage\<close> returns an error
  (the end of the list), after which the handler leaves the loop.
\<close>

fun readLoop :: "env \<Rightarrow> string list \<Rightarrow> world \<Rightarrow> world" where
  "readLoop env [] w = w"
| "readLoop env (msg # rest) w = readLoop env rest (handleMessage env msg w)"

definition handleWebSocket :: "env \<Rightarrow> bool \<Rightarrow> string list \<Rightarrow> world \<Rightarrow> world" where
  "handleWebSocket env upgraded inbound w = (if \<not> upgraded then w else readLoop env inbound w)"

subsection \<open>Model fetcher: \<^verbatim>\<open>getAvailableModel\<close>\<close>

definition getAvailableModel :: "env \<Rightarrow> world \<Rightarrow> (error + string) \<times> world" where
  "getAvailableModel env w =
     (let ollamaModelsURL = ollamaURL w @ ''/api/tags'';
          w1 = set_status CheckingModels w
      in case httpGet env ollamaModelsURL w1 of
           (TransportErr, w2) \<Rightarrow> (Inl FailedToConnect, set_status ErrorConnecting w2)
         | (Reply code body, w2) \<Rightarrow>
             if code \<noteq> 200 then (Inl (BadStatus code), set_status ErrorAPI w2)
             else (case unmarshalModels env body of
                     None \<Rightarrow> (Inl FailedToParseModels, set_status ErrorParsing w2)
                   | Some modelsResp \<Rightarrow>
                       if length (Models modelsResp) = 0
                       then (Inl NoModelsInOllama, set_status NoModels w2)
                       else (Inr (Name (Models modelsResp ! 0)), set_status ModelFound w2)))"

subsection \<open>Generation prober: \<^verbatim>\<open>testModelGeneration\<close>\<close>

text \<open>
  The \<^verbatim>\<open>for testAttempt := 1; testAttempt <= maxTestRetries; testAttempt++\<close> loop. The
  result is the returned error (\<open>None\<close> for \<^verbatim>\<open>nil\<close>).
\<close>

function testLoop ::
    "env \<Rightarrow> string \<Rightarrow> nat \<Rightarrow> nat \<Rightarrow> world \<Rightarrow> error option \<times> world" where
  "testLoop env modelName maxTestRetries testAttempt w =
     (if testAttempt \<le> maxTestRetries then
        (let ollamaGenerateURL = ollamaURL w @ ''/api/generate'';
             request = \<lparr>Model = modelName, Prompt = ''Hi'', Stream = False\<rparr>
         in case httpPost env ollamaGenerateURL request w of
              (TransportErr, w1) \<Rightarrow>
                if testAttempt < maxTestRetries
                then testLoop env modelName maxTestRetries (testAttempt + 1) (sleep 2 w1)
                else (Some (GenFailedToConnect maxTestRetries), set_status ErrorGeneration w1)
            | (Reply code body, w1) \<Rightarrow>
                if code \<noteq> 200 then
                  (if testAttempt < maxTestRetries
                   then testLoop env modelName maxTestRetries (testAttempt + 1) (sleep 2 w1)
                   else (Some (GenBadStatus code maxTestRetries body),
                         set_status ErrorGeneration w1))
                else
                  (case unmarshalObject env body of
                     None \<Rightarrow>
                       if testAttempt < maxTestRetries
                       then testLoop env modelName maxTestRetries (testAttempt + 1) (sleep 2 w1)
                       else (Some (GenFailedToParse maxTestRetries),
                             set_status ErrorParsingResponse w1)
                   | Some response \<Rightarrow>
                       if response ''response'' = None \<or> response ''response'' = Some JNull
                       then
                         (if testAttempt < maxTestRetries
                          then testLoop env modelName maxTestRetries (testAttempt + 1)
                                 (sleep 2 w1)
                          else (Some (GenNoResponseContent maxTestRetries),
                                set_status ErrorNoResponse w1))
                       else (None, w1)))
      else (Some (GenFailedAfter maxTestRetries), set_status ErrorGeneration w))"
  by pat_completeness auto
termination
  by (relation "measure (\<lambda>(env, modelName, maxTestRetries, testAttempt, w).
                           Suc maxTestRetries - testAttempt)") auto

text \<open>
  \<^verbatim>\<open>testModelGeneration\<close> with the local \<^verbatim>\<open>maxTestRetries\<close> as a parameter, and the function
  itself, where it is 100.
\<close>

definition testModelGenerationN ::
    "env \<Rightarrow> nat \<Rightarrow> string \<Rightarrow> world \<Rightarrow> error option \<times> world" where
  "testModelGenerationN env maxTestRetries modelName w =
     testLoop env modelName maxTestRetries 1 (set_status TestingGeneration w)"


subsection \<open>Readiness state machine: \<^verbatim>\<open>checkModelReady\<close>\<close>

text \<open>
  The \<^verbatim>\<open>for attempt := 1; attempt <= maxRetries; attempt++\<close> loop; both \<^verbatim>\<open>continue\<close>s go to
  the next attempt, success returns, and falling out of the loop sets \<^verbatim>\<open>failed\<close>.
\<close>

function checkLoop :: "env \<Rightarrow> nat \<Rightarrow> nat \<Rightarrow> nat \<Rightarrow> world \<Rightarrow> world" where
  "checkLoop env maxRetries maxTestRetries attempt w =
     (if attempt \<le> maxRetries then
        (let w1 = (if attempt > 1 then sleep 10 (set_status (Retry attempt) w) else w)
         in case getAvailableModel env w1 of
              (Inl err, w2) \<Rightarrow> checkLoop env maxRetries maxTestRetries (attempt + 1) w2
            | (Inr model, w2) \<Rightarrow>
                (let w3 = set_model model w2
                 in case testModelGenerationN env maxTestRetries (ollamaModel w3) w3 of
                      (Some err, w4) \<Rightarrow>
                        checkLoop env maxRetries maxTestRetries (attempt + 1) w4
                    | (None, w4) \<Rightarrow> store_ready True (set_status Ready w4)))
      else set_status Failed w)"
  by pat_completeness auto
termination
  by (relation "measure (\<lambda>(env, maxRetries, maxTestRetries, attempt, w).
                           Suc maxRetries - attempt)") auto

definition checkModelReadyN :: "env \<Rightarrow> nat \<Rightarrow> nat \<Rightarrow> world \<Rightarrow> world" where
  "checkModelReadyN env maxRetries maxTestRetries w =
     (if \<not> ollamaEnabled w then store_never_ready True (set_status Disabled w)
      else checkLoop env maxRetries maxTestRetries 1 (set_status Starting w))"

definition checkModelReady :: "env \<Rightarrow> world \<Rightarrow> world" where
  "checkModelReady env w = checkModelReadyN env 100 100 w"


section \<open>Observations and specification-side notions\<close>

subsection \<open>Reading a trace\<close>

definition statuses :: "event list \<Rightarrow> status list" where
  "statuses evs = concat (map (\<lambda>e. case e of SetStatus s \<Rightarrow> [s] | _ \<Rightarrow> []) evs)"

definition model_writes :: "event list \<Rightarrow> string list" where
  "model_writes evs = concat (map (\<lambda>e. case e of SetModel m \<Rightarrow> [m] | _ \<Rightarrow> []) evs)"

definition posts :: "event list \<Rightarrow> (string \<times> OllamaRequest) list" where
  "posts evs = concat (map (\<lambda>e. case e of HttpPost url r \<Rightarrow> [(url, r)] | _ \<Rightarrow> []) evs)"

definition sleeps :: "event list \<Rightarrow> nat list" where
  "sleeps evs = concat (map (\<lambda>e. case e of Sleep d \<Rightarrow> [d] | _ \<Rightarrow> []) evs)"

definition ws_sent :: "event list \<Rightarrow> string list" where
  "ws_sent evs = concat (map (\<lambda>e. case e of WsWrite m ok \<Rightarrow> [m] | _ \<Rightarrow> []) evs)"

definition saved :: "event list \<Rightarrow> (string \<times> string) list" where
  "saved evs = concat (map (\<lambda>e. case e of SaveMessage who m \<Rightarrow> [(who, m)] | _ \<Rightarrow> []) evs)"

text \<open>The successive values of \<^verbatim>\<open>modelStatus\<close>, from its declared value onwards.\<close>

definition status_history :: "world \<Rightarrow> status list" where
  "status_history w = Initializing # statuses (trace w)"

subsection \<open>The fetcher's failure kinds, as the specification names them\<close>

datatype failure = ConnectionError | APIError | ParseError | NoModelsAvailable

fun failure_tag :: "failure \<Rightarrow> status" where
  "failure_tag ConnectionError = ErrorConnecting"
| "failure_tag APIError = ErrorAPI"
| "failure_tag ParseError = ErrorParsing"
| "failure_tag NoModelsAvailable = NoModels"

fun failure_of :: "error \<Rightarrow> failure option" where
  "failure_of FailedToConnect = Some ConnectionError"
| "failure_of (BadStatus code) = Some APIError"
| "failure_of FailedToParseModels = Some ParseError"
| "failure_of NoModelsInOllama = Some NoModelsAvailable"
| "failure_of _ = None"

text \<open>
  What is asked of the fetcher for a given answer to its one request, when the statuses for
  which \<open>ok\<close> holds count as success: the name of the first entry, or the failure kind of
  the observed condition. The specification's non-success status is a status outside
  200..299.
\<close>

definition fetch_by :: "(nat \<Rightarrow> bool) \<Rightarrow> env \<Rightarrow> string reply \<Rightarrow> failure + string" where
  "fetch_by ok env r =
     (case r of
        TransportErr \<Rightarrow> Inl ConnectionError
      | Reply code body \<Rightarrow>
          if \<not> ok code then Inl APIError
          else (case unmarshalModels env body of
                  None \<Rightarrow> Inl ParseError
                | Some modelsResp \<Rightarrow>
                    (case Models modelsResp of
                       [] \<Rightarrow> Inl NoModelsAvailable
                     | m # rest \<Rightarrow> Inr (Name m))))"

definition success_status :: "nat \<Rightarrow> bool" where
  "success_status code = (200 \<le> code \<and> code < 300)"

definition fetch_spec :: "env \<Rightarrow> string reply \<Rightarrow> failure + string" where
  "fetch_spec env r = fetch_by success_status env r"

text \<open>The name a fetch finds in a given answer, if it finds one.\<close>

definition fetched_name :: "env \<Rightarrow> string reply \<Rightarrow> string option" where
  "fetched_name env r =
     (case fetch_by (\<lambda>code. code = 200) env r of Inl f \<Rightarrow> None | Inr name \<Rightarrow> Some name)"

subsection \<open>The prober's attempts\<close>

text \<open>
  What the answer to one probe request means for the prober: the status tag of the failure
  kind (transport error or a status other than 200: generation error; a body that does not
  decode: parse error; a body without generated text: no content), or \<open>None\<close> when
  the answer carries generated text.
\<close>

definition attempt_failure :: "env \<Rightarrow> string reply \<Rightarrow> status option" where
  "attempt_failure env r =
     (case r of
        TransportErr \<Rightarrow> Some ErrorGeneration
      | Reply code body \<Rightarrow>
          if code \<noteq> 200 then Some ErrorGeneration
          else (case unmarshalObject env body of
                  None \<Rightarrow> Some ErrorParsingResponse
                | Some response \<Rightarrow>
                    (case response ''response'' of
                       None \<Rightarrow> Some ErrorNoResponse
                     | Some JNull \<Rightarrow> Some ErrorNoResponse
                     | Some v \<Rightarrow> None)))"

text \<open>The probe request as an effect, and the world after one probe request.\<close>

abbreviation probe_request :: "world \<Rightarrow> string \<Rightarrow> event" where
  "probe_request w modelName \<equiv>
     HttpPost (ollamaURL w @ ''/api/generate'')
       \<lparr>Model = modelName, Prompt = ''Hi'', Stream = False\<rparr>"

definition probe :: "env \<Rightarrow> string \<Rightarrow> world \<Rightarrow> world" where
  "probe env modelName w =
     snd (httpPost env (ollamaURL w @ ''/api/generate'')
            \<lparr>Model = modelName, Prompt = ''Hi'', Stream = False\<rparr> w)"

subsection \<open>The order of the status tags\<close>

fun is_fetch_error :: "status \<Rightarrow> bool" where
  "is_fetch_error ErrorConnecting = True"
| "is_fetch_error ErrorAPI = True"
| "is_fetch_error ErrorParsing = True"
| "is_fetch_error NoModels = True"
| "is_fetch_error _ = False"

fun is_probe_error :: "status \<Rightarrow> bool" where
  "is_probe_error ErrorGeneration = True"
| "is_probe_error ErrorParsingResponse = True"
| "is_probe_error ErrorNoResponse = True"
| "is_probe_error _ = False"

fun terminal :: "status \<Rightarrow> bool" where
  "terminal Ready = True"
| "terminal Failed = True"
| "terminal Disabled = True"
| "terminal _ = False"

text \<open>
  The steps between successive values of \<^verbatim>\<open>modelStatus\<close>: from \<^verbatim>\<open>initializing\<close> to
  \<^verbatim>\<open>starting\<close> or \<^verbatim>\<open>disabled\<close>; discovery from \<^verbatim>\<open>starting\<close> or a retry tag; the
  outcome of discovery; the probe and its outcome; and from an error tag to the next retry
  or to \<^verbatim>\<open>failed\<close>. Nothing leaves \<^verbatim>\<open>ready\<close>, \<^verbatim>\<open>failed\<close> or \<^verbatim>\<open>disabled\<close>.
\<close>

definition status_step :: "status \<Rightarrow> status \<Rightarrow> bool" where
  "status_step a b =
     (case a of
        Initializing \<Rightarrow> b = Starting \<or> b = Disabled
      | Starting \<Rightarrow> b = CheckingModels
      | Retry n \<Rightarrow> b = CheckingModels
      | CheckingModels \<Rightarrow> is_fetch_error b \<or> b = ModelFound
      | ModelFound \<Rightarrow> b = TestingGeneration
      | TestingGeneration \<Rightarrow> is_probe_error b \<or> b = Ready
      | Ready \<Rightarrow> False
      | Failed \<Rightarrow> False
      | Disabled \<Rightarrow> False
      | _ \<Rightarrow> (case b of Retry n \<Rightarrow> True | Failed \<Rightarrow> True | _ \<Rightarrow> False))"

text \<open>
  The tags of the specification's ReadinessState enumeration, among the values of
  \<^verbatim>\<open>modelStatus\<close>: Initializing, CheckingModels, ModelFound, TestingGeneration,
  RetryAttempt(n), Ready, Disabled, Failed and the error tags, where ErrorParsing stands for
  both \<^verbatim>\<open>error_parsing\<close> and the prober's \<^verbatim>\<open>error_parsing_response\<close>. The enumeration has
  no tag for \<^verbatim>\<open>starting\<close>.
\<close>

fun in_ReadinessState :: "status \<Rightarrow> bool" where
  "in_ReadinessState Starting = False"
| "in_ReadinessState _ = True"

subsection \<open>Auxiliary notions for the readiness loop\<close>

text \<open>The effects a run of the prober can have after announcing itself.\<close>

fun probe_event :: "event \<Rightarrow> bool" where
  "probe_event (HttpPost url r) = True"
| "probe_event (Sleep d) = True"
| "probe_event (SetStatus s) = is_probe_error s"
| "probe_event _ = False"

text \<open>The effects at the head of a retry, and one pass through the body of the loop
  of \<^verbatim>\<open>checkModelReady\<close> (with whether it reached readiness).\<close>

definition retry_events :: "nat \<Rightarrow> event list" where
  "retry_events attempt = (if attempt > 1 then [SetStatus (Retry attempt), Sleep 10] else [])"

definition attempt_body :: "env \<Rightarrow> nat \<Rightarrow> nat \<Rightarrow> world \<Rightarrow> bool \<times> world" where
  "attempt_body env maxTestRetries attempt w =
     (let w1 = (if attempt > 1 then sleep 10 (set_status (Retry attempt) w) else w)
      in case getAvailableModel env w1 of
           (Inl err, w2) \<Rightarrow> (False, w2)
         | (Inr model, w2) \<Rightarrow>
             (let w3 = set_model model w2
              in case testModelGenerationN env maxTestRetries (ollamaModel w3) w3 of
                   (Some err, w4) \<Rightarrow> (False, w4)
                 | (None, w4) \<Rightarrow> (True, store_ready True (set_status Ready w4))))"

text \<open>What holds of the status when the loop is entered for the given attempt.\<close>

definition loop_entry :: "nat \<Rightarrow> status \<Rightarrow> bool" where
  "loop_entry attempt s =
     (if attempt = 1 then s = Starting
      else 1 < attempt \<and> (is_fetch_error s \<or> is_probe_error s))"

text \<open>The status current at each assignment to \<^verbatim>\<open>ollamaModel\<close>, with the name assigned.\<close>

fun writes_at :: "status \<Rightarrow> event list \<Rightarrow> (status \<times> string) list" where
  "writes_at cur [] = []"
| "writes_at cur (SetStatus s # es) = writes_at s es"
| "writes_at cur (SetModel m # es) = (cur, m) # writes_at cur es"
| "writes_at cur (e # es) = writes_at cur es"

text \<open>The table a handler answers from while the model is not ready.\<close>

definition canned :: "world \<Rightarrow> string list" where
  "canned w = (if modelNeverReady w then noAIMessages else waitingMessages)"

subsection \<open>The states passed through, from the effects\<close>

text \<open>
  What an effect does to the readiness variables, and the states that a list of effects
  leads through from a given one.
\<close>

fun apply_event :: "event \<Rightarrow> view \<Rightarrow> view" where
  "apply_event (SetStatus s) v = v\<lparr>v_status := s\<rparr>"
| "apply_event (SetModel m) v = v\<lparr>v_model := m\<rparr>"
| "apply_event (StoreReady b) v = v\<lparr>v_ready := b\<rparr>"
| "apply_event (StoreNeverReady b) v = v\<lparr>v_never := b\<rparr>"
| "apply_event e v = v"

fun replay :: "view \<Rightarrow> event list \<Rightarrow> view list" where
  "replay v [] = []"
| "replay v (e # es) = apply_event e v # replay (apply_event e v) es"

text \<open>The logged states are those the logged effects lead through, up to the present one.\<close>

definition coherent :: "view \<Rightarrow> world \<Rightarrow> bool" where
  "coherent v0 w = (views w = replay v0 (trace w) \<and> view_of w = last (v0 # views w))"

text \<open>The values stored to \<^verbatim>\<open>modelNeverReady\<close>, and the value of \<^verbatim>\<open>ollamaModel\<close> after each
  effect, from a given name.\<close>

definition never_stores :: "event list \<Rightarrow> bool list" where
  "never_stores evs = concat (map (\<lambda>e. case e of StoreNeverReady b \<Rightarrow> [b] | _ \<Rightarrow> []) evs)"

fun names_over :: "string \<Rightarrow> event list \<Rightarrow> string list" where
  "names_over cur [] = []"
| "names_over cur (SetModel m # es) = m # names_over m es"
| "names_over cur (e # es) = cur # names_over cur es"

text \<open>
  The names the model listings of a run have found, in order: \<open>k\<close> is the number of the
  next HTTP request, and each listing request contributes the name found in its answer.
\<close>

fun fetched_names :: "env \<Rightarrow> nat \<Rightarrow> event list \<Rightarrow> string list" where
  "fetched_names env k [] = []"
| "fetched_names env k (HttpGet url # es) =
     (case fetched_name env (http_reply env k) of None \<Rightarrow> [] | Some name \<Rightarrow> [name])
       @ fetched_names env (Suc k) es"
| "fetched_names env k (HttpPost url r # es) = fetched_names env (Suc k) es"
| "fetched_names env k (e # es) = fetched_names env k es"

text \<open>The number of HTTP requests among some effects.\<close>

definition http_count :: "event list \<Rightarrow> nat" where
  "http_count evs =
     length (filter (\<lambda>e. case e of HttpGet url \<Rightarrow> True | HttpPost url r \<Rightarrow> True | _ \<Rightarrow> False) evs)"

text \<open>
  A world whose request counter is the number of requests among its effects, and in which
  the names assigned to \<^verbatim>\<open>ollamaModel\<close> are the names its listings have found.
\<close>

definition accounted :: "env \<Rightarrow> world \<Rightarrow> bool" where
  "accounted env w =
     (http_calls w = http_count (trace w)
      \<and> model_writes (trace w) = fetched_names env 0 (trace w))"

text \<open>A connection's world in which the readiness variables read as in a given state.\<close>

definition seeing :: "view \<Rightarrow> world \<Rightarrow> world" where
  "seeing v w =
     w\<lparr>ollamaModel := v_model v, modelReady := v_ready v, modelStatus := v_status v,
       modelNeverReady := v_never v\<rparr>"

subsection \<open>The relay's chunks\<close>

text \<open>
  The tokens the scanner delivers for a body: those of the lines before the first line of
  \<open>MaxScanTokenSize\<close> bytes or more. The chunks of a body, in arrival order, are the tokens
  that decode. \<open>upto_done\<close> cuts them after the first chunk with \<^verbatim>\<open>done\<close> set; \<open>wrote\<close> is
  the successful write of each chunk's text and \<open>text_of\<close> the concatenation of the texts.
\<close>

definition scanned :: "string list \<Rightarrow> string list" where
  "scanned lines = map dropCR (takeWhile (\<lambda>l. length l < MaxScanTokenSize) lines)"

definition chunks :: "env \<Rightarrow> string list \<Rightarrow> OllamaStreamResponse list" where
  "chunks env lines = List.map_filter (unmarshalStream env) (scanned lines)"

fun upto_done :: "OllamaStreamResponse list \<Rightarrow> OllamaStreamResponse list" where
  "upto_done [] = []"
| "upto_done (c # cs) = (if Done c then [c] else c # upto_done cs)"

definition wrote :: "OllamaStreamResponse list \<Rightarrow> event list" where
  "wrote cs = map (\<lambda>c. WsWrite (Response c) True) cs"

definition text_of :: "OllamaStreamResponse list \<Rightarrow> string" where
  "text_of cs = concat (map Response cs)"

subsection \<open>Sample environments\<close>

text \<open>
  A reachable inference service with one installed model \<open>m1\<close>: the first request (the
  model listing) and every later buffered request (the probe) succeed, and a streaming
  generation call answers with three lines. The decoders give, on the sample bodies, what
  \<^verbatim>\<open>json.Unmarshal\<close> gives on them, and fail on every other text.
\<close>

definition sample_tags_body :: string where
  \<open>sample_tags_body = ''{"models":[{"name":"m1"}]}''\<close>

definition sample_probe_body :: string where
  \<open>sample_probe_body = ''{"response":"Hello!","done":true}''\<close>

definition line_Hel :: string where
  \<open>line_Hel = ''{"response":"Hel","done":false}''\<close>

definition line_lo :: string where
  \<open>line_lo = ''{"response":"lo","done":false}''\<close>

definition line_done :: string where
  \<open>line_done = ''{"response":"","done":true}''\<close>

definition line_malformed :: string where
  \<open>line_malformed = ''{"response":''\<close>

definition sample_model :: OllamaModel where
  "sample_model =
     \<lparr>Name = ''m1'', ModifiedAt = [], Size = 0, Digest = [],
      Details = \<lparr>Format = [], Family = [], Families = [], ParameterSize = [],
                 QuantizationLevel = []\<rparr>\<rparr>"

definition sample_env :: env where
  "sample_env =
     \<lparr>http_reply = (\<lambda>k. if k = 0 then Reply 200 sample_tags_body
                         else Reply 200 sample_probe_body),
      stream_reply = (\<lambda>k. Reply 200 [line_Hel, line_lo, line_done]),
      ws_ok = (\<lambda>k. True),
      rand_src = (\<lambda>k. 7 * k + 13),
      unmarshalModels = map_of [(sample_tags_body, \<lparr>Models = [sample_model]\<rparr>)],
      unmarshalObject =
        map_of [(sample_probe_body,
                 [''response'' \<mapsto> JString ''Hello!'', ''done'' \<mapsto> JBool True])],
      unmarshalStream =
        map_of [(line_Hel, \<lparr>Response = ''Hel'', Done = False\<rparr>),
                (line_lo, \<lparr>Response = ''lo'', Done = False\<rparr>),
                (line_done, \<lparr>Response = [], Done = True\<rparr>)]\<rparr>"

text \<open>The same, with an inference service that cannot be reached.\<close>

definition down_env :: env where
  "down_env = sample_env\<lparr>http_reply := (\<lambda>k. TransportErr), stream_reply := (\<lambda>k. TransportErr)\<rparr>"

definition sample_url :: string where
  "sample_url = ''http://ollama:11434''"

text \<open>A world in which readiness has been reached with model \<open>m1\<close>.\<close>

definition sample_ready_world :: world where
  "sample_ready_world =
     (init_world sample_url True)\<lparr>ollamaModel := ''m1'', modelReady := True, modelStatus := Ready\<rparr>"

text \<open>A stream with a malformed line between two chunks, and a client that takes one write.\<close>

definition malformed_env :: env where
  "malformed_env =
     sample_env\<lparr>stream_reply := (\<lambda>k. Reply 200 [line_Hel, line_malformed, line_lo])\<rparr>"

definition flaky_env :: env where
  "flaky_env = sample_env\<lparr>ws_ok := (\<lambda>k. k < 1)\<rparr>"

text \<open>A stream whose middle line is malformed and as long as the scanner's buffer.\<close>

definition long_line :: string where
  "long_line = replicate 65536 (CHR ''x'')"

definition long_env :: env where
  "long_env = sample_env\<lparr>stream_reply := (\<lambda>k. Reply 200 [line_Hel, long_line, line_lo])\<rparr>"

text \<open>
  A service that lists \<open>m1\<close> first, fails every probe of the first cycle (requests 1 to
  100), then lists \<open>m2\<close> and answers the probe.
\<close>

definition other_tags_body :: string where
  \<open>other_tags_body = ''{"models":[{"name":"m2"}]}''\<close>

definition second_env :: env where
  "second_env =
     sample_env\<lparr>http_reply :=
                  (\<lambda>k. if k = 0 then Reply 200 sample_tags_body
                       else if k \<le> 100 then TransportErr
                       else if k = 101 then Reply 200 other_tags_body
                       else Reply 200 sample_probe_body),
                unmarshalModels :=
                  map_of [(sample_tags_body, \<lparr>Models = [sample_model]\<rparr>),
                          (other_tags_body, \<lparr>Models = [sample_model\<lparr>Name := ''m2''\<rparr>]\<rparr>)]\<rparr>"

text \<open>A model listing that is answered with status 201 and the sample body.\<close>

definition created_env :: env where
  "created_env = sample_env\<lparr>http_reply := (\<lambda>k. Reply 201 sample_tags_body)\<rparr>"

section \<open>Basic facts\<close>

declare testLoop.simps [simp del] checkLoop.simps [simp del]

lemmas prims = emit_def set_status_def set_model_def store_ready_def store_never_ready_def
  sleep_def httpGet_def httpPost_def httpPostStream_def WriteMessage_def Intn_def
  saveMessage_def

lemmas sample_defs = sample_env_def down_env_def sample_tags_body_def sample_probe_body_def
  line_Hel_def line_lo_def line_done_def line_malformed_def sample_model_def sample_url_def
  init_world_def

lemma statuses_append [simp]: "statuses (xs @ ys) = statuses xs @ statuses ys"
  by (simp add: statuses_def)

lemma statuses_Nil [simp]: "statuses [] = []"
  by (simp add: statuses_def)

lemma statuses_Cons [simp]:
  "statuses (e # es) = (case e of SetStatus s \<Rightarrow> [s] | _ \<Rightarrow> []) @ statuses es"
  by (simp add: statuses_def)

lemma ws_sent_simps [simp]:
  "ws_sent [] = []"
  "ws_sent (e # es) = (case e of WsWrite m ok \<Rightarrow> [m] | _ \<Rightarrow> []) @ ws_sent es"
  "ws_sent (xs @ ys) = ws_sent xs @ ws_sent ys"
  by (simp_all add: ws_sent_def)

lemma saved_simps [simp]:
  "saved [] = []"
  "saved (e # es) = (case e of SaveMessage who m \<Rightarrow> [(who, m)] | _ \<Rightarrow> []) @ saved es"
  "saved (xs @ ys) = saved xs @ saved ys"
  by (simp_all add: saved_def)

lemma posts_simps [simp]:
  "posts [] = []"
  "posts (e # es) = (case e of HttpPost url r \<Rightarrow> [(url, r)] | _ \<Rightarrow> []) @ posts es"
  "posts (xs @ ys) = posts xs @ posts ys"
  by (simp_all add: posts_def)

lemma sleeps_simps [simp]:
  "sleeps [] = []"
  "sleeps (e # es) = (case e of Sleep d \<Rightarrow> [d] | _ \<Rightarrow> []) @ sleeps es"
  "sleeps (xs @ ys) = sleeps xs @ sleeps ys"
  by (simp_all add: sleeps_def)

lemma model_writes_simps [simp]:
  "model_writes [] = []"
  "model_writes (e # es) = (case e of SetModel m \<Rightarrow> [m] | _ \<Rightarrow> []) @ model_writes es"
  "model_writes (xs @ ys) = model_writes xs @ model_writes ys"
  by (simp_all add: model_writes_def)

lemma init_world_fields [simp]:
  "trace (init_world url enabled) = []"
  "views (init_world url enabled) = []"
  "http_calls (init_world url enabled) = 0"
  "ollamaURL (init_world url enabled) = url"
  "ollamaEnabled (init_world url enabled) = enabled"
  "ollamaModel (init_world url enabled) = []"
  "modelReady (init_world url enabled) = False"
  "modelStatus (init_world url enabled) = Initializing"
  "modelNeverReady (init_world url enabled) = False"
  "ws_writes (init_world url enabled) = 0"
  "rand_calls (init_world url enabled) = 0"
  by (simp_all add: init_world_def)

lemma probe_fields [simp]:
  "trace (probe env m w) = trace w @ [probe_request w m]"
  "http_calls (probe env m w) = Suc (http_calls w)"
  "ollamaURL (probe env m w) = ollamaURL w"
  "ollamaEnabled (probe env m w) = ollamaEnabled w"
  "ollamaModel (probe env m w) = ollamaModel w"
  "modelReady (probe env m w) = modelReady w"
  "modelStatus (probe env m w) = modelStatus w"
  "modelNeverReady (probe env m w) = modelNeverReady w"
  "ws_writes (probe env m w) = ws_writes w"
  "rand_calls (probe env m w) = rand_calls w"
  by (simp_all add: probe_def httpPost_def emit_def)

lemma sleep_fields [simp]:
  "trace (sleep d w) = trace w @ [Sleep d]"
  "http_calls (sleep d w) = http_calls w"
  "ollamaURL (sleep d w) = ollamaURL w"
  "ollamaEnabled (sleep d w) = ollamaEnabled w"
  "ollamaModel (sleep d w) = ollamaModel w"
  "modelReady (sleep d w) = modelReady w"
  "modelStatus (sleep d w) = modelStatus w"
  "modelNeverReady (sleep d w) = modelNeverReady w"
  "ws_writes (sleep d w) = ws_writes w"
  "rand_calls (sleep d w) = rand_calls w"
  by (simp_all add: sleep_def emit_def)

lemma set_status_fields [simp]:
  "trace (set_status s w) = trace w @ [SetStatus s]"
  "http_calls (set_status s w) = http_calls w"
  "ollamaURL (set_status s w) = ollamaURL w"
  "ollamaEnabled (set_status s w) = ollamaEnabled w"
  "ollamaModel (set_status s w) = ollamaModel w"
  "modelReady (set_status s w) = modelReady w"
  "modelStatus (set_status s w) = s"
  "modelNeverReady (set_status s w) = modelNeverReady w"
  "ws_writes (set_status s w) = ws_writes w"
  "rand_calls (set_status s w) = rand_calls w"
  by (simp_all add: set_status_def emit_def)

lemma set_model_fields [simp]:
  "trace (set_model m w) = trace w @ [SetModel m]"
  "http_calls (set_model m w) = http_calls w"
  "ollamaURL (set_model m w) = ollamaURL w"
  "ollamaEnabled (set_model m w) = ollamaEnabled w"
  "ollamaModel (set_model m w) = m"
  "modelReady (set_model m w) = modelReady w"
  "modelStatus (set_model m w) = modelStatus w"
  "modelNeverReady (set_model m w) = modelNeverReady w"
  "ws_writes (set_model m w) = ws_writes w"
  "rand_calls (set_model m w) = rand_calls w"
  by (simp_all add: set_model_def emit_def)

lemma store_ready_fields [simp]:
  "trace (store_ready b w) = trace w @ [StoreReady b]"
  "http_calls (store_ready b w) = http_calls w"
  "ollamaURL (store_ready b w) = ollamaURL w"
  "ollamaEnabled (store_ready b w) = ollamaEnabled w"
  "ollamaModel (store_ready b w) = ollamaModel w"
  "modelReady (store_ready b w) = b"
  "modelStatus (store_ready b w) = modelStatus w"
  "modelNeverReady (store_ready b w) = modelNeverReady w"
  "ws_writes (store_ready b w) = ws_writes w"
  "rand_calls (store_ready b w) = rand_calls w"
  by (simp_all add: store_ready_def emit_def)

lemma store_never_ready_fields [simp]:
  "trace (store_never_ready b w) = trace w @ [StoreNeverReady b]"
  "http_calls (store_never_ready b w) = http_calls w"
  "ollamaURL (store_never_ready b w) = ollamaURL w"
  "ollamaEnabled (store_never_ready b w) = ollamaEnabled w"
  "ollamaModel (store_never_ready b w) = ollamaModel w"
  "modelReady (store_never_ready b w) = modelReady w"
  "modelStatus (store_never_ready b w) = modelStatus w"
  "modelNeverReady (store_never_ready b w) = b"
  "ws_writes (store_never_ready b w) = ws_writes w"
  "rand_calls (store_never_ready b w) = rand_calls w"
  by (simp_all add: store_never_ready_def emit_def)

lemma httpGet_fields [simp]:
  "trace (snd (httpGet env url w)) = trace w @ [HttpGet url]"
  "http_calls (snd (httpGet env url w)) = Suc (http_calls w)"
  "ollamaURL (snd (httpGet env url w)) = ollamaURL w"
  "ollamaEnabled (snd (httpGet env url w)) = ollamaEnabled w"
  "ollamaModel (snd (httpGet env url w)) = ollamaModel w"
  "modelReady (snd (httpGet env url w)) = modelReady w"
  "modelStatus (snd (httpGet env url w)) = modelStatus w"
  "modelNeverReady (snd (httpGet env url w)) = modelNeverReady w"
  "ws_writes (snd (httpGet env url w)) = ws_writes w"
  "rand_calls (snd (httpGet env url w)) = rand_calls w"
  by (simp_all add: httpGet_def emit_def)

lemma never_stores_simps [simp]:
  "never_stores [] = []"
  "never_stores (e # es) = (case e of StoreNeverReady b \<Rightarrow> [b] | _ \<Rightarrow> []) @ never_stores es"
  "never_stores (xs @ ys) = never_stores xs @ never_stores ys"
  by (simp_all add: never_stores_def)

lemma http_count_simps [simp]:
  "http_count [] = 0"
  "http_count (e # es) =
     (case e of HttpGet url \<Rightarrow> 1 | HttpPost url r \<Rightarrow> 1 | _ \<Rightarrow> 0) + http_count es"
  "http_count (xs @ ys) = http_count xs + http_count ys"
  by (simp_all add: http_count_def split: event.splits)

subsection \<open>The states passed through\<close>

lemma replay_append:
  "replay v (xs @ ys) = replay v xs @ replay (last (v # replay v xs)) ys"
  by (induction xs arbitrary: v) simp_all

lemma length_replay [simp]: "length (replay v evs) = length evs"
  by (induction evs arbitrary: v) simp_all

lemma coherent_emit:
  assumes "coherent v0 w" and "trace w1 = trace w" and "views w1 = views w"
    and "view_of w1 = apply_event e (view_of w)"
  shows "coherent v0 (emit e w1)"
proof -
  from assms(1) have v: "views w = replay v0 (trace w)" and l: "view_of w = last (v0 # views w)"
    by (simp_all add: coherent_def)
  have vo: "view_of (emit e w1) = view_of w1"
    by (simp add: emit_def view_of_def)
  have "views (emit e w1) = replay v0 (trace w) @ [apply_event e (view_of w)]"
    using assms(2,3,4) v by (simp add: emit_def)
  moreover have "replay v0 (trace (emit e w1)) =
      replay v0 (trace w) @ [apply_event e (last (v0 # replay v0 (trace w)))]"
    using assms(2) by (simp add: emit_def replay_append)
  ultimately show ?thesis
    using l v vo assms(4) by (simp add: coherent_def)
qed

lemma coherent_prims:
  assumes "coherent v0 w"
  shows "coherent v0 (set_status s w)"
    and "coherent v0 (set_model m w)"
    and "coherent v0 (store_ready b w)"
    and "coherent v0 (store_never_ready b w)"
    and "coherent v0 (sleep d w)"
    and "coherent v0 (snd (httpGet env url w))"
    and "coherent v0 (probe env m w)"
  unfolding set_status_def set_model_def store_ready_def store_never_ready_def sleep_def
    httpGet_def probe_def httpPost_def snd_conv
  by (rule coherent_emit [OF assms]; simp add: view_of_def)+

lemma coherent_init: "coherent (view_of (init_world url enabled)) (init_world url enabled)"
  by (simp add: coherent_def)

lemma replay_never:
  "never_stores evs = [] \<Longrightarrow> \<forall>v \<in> set (replay v0 evs). v_never v = v_never v0"
proof (induction evs arbitrary: v0)
  case Nil
  then show ?case by simp
next
  case (Cons e evs)
  then show ?case by (cases e) (auto split: if_splits)
qed

lemma replay_names: "map v_model (replay v evs) = names_over (v_model v) evs"
proof (induction evs arbitrary: v)
  case Nil
  then show ?case by simp
next
  case (Cons e evs)
  then show ?case by (cases e) simp_all
qed


lemma seeing_fields [simp]:
  "trace (seeing v w) = trace w"
  "http_calls (seeing v w) = http_calls w"
  "ws_writes (seeing v w) = ws_writes w"
  "rand_calls (seeing v w) = rand_calls w"
  "ollamaURL (seeing v w) = ollamaURL w"
  "ollamaModel (seeing v w) = v_model v"
  "modelReady (seeing v w) = v_ready v"
  "modelStatus (seeing v w) = v_status v"
  "modelNeverReady (seeing v w) = v_never v"
  by (simp_all add: seeing_def)

subsection \<open>Requests and the names found\<close>

lemma fetched_names_append:
  "fetched_names env k (xs @ ys) =
     fetched_names env k xs @ fetched_names env (k + http_count xs) ys"
proof (induction xs arbitrary: k)
  case Nil
  then show ?case by simp
next
  case (Cons e xs)
  then show ?case by (cases e) simp_all
qed

lemma accounted_prims:
  assumes "accounted env w"
  shows "accounted env (set_status s w)"
    and "accounted env (store_ready b w)"
    and "accounted env (store_never_ready b w)"
    and "accounted env (sleep d w)"
    and "accounted env (probe env m w)"
  using assms by (simp_all add: accounted_def fetched_names_append)

lemma accounted_init: "accounted env (init_world url enabled)"
  by (simp add: accounted_def)
section \<open>The model fetcher\<close>

text \<open>
  C8 (as amended). For every answer to the model-listing request, \<^verbatim>\<open>getAvailableModel\<close>
  returns the name of the first entry when the status is 200 and the decoded list is not
  empty, and otherwise an error of the kind of the observed condition: a connection error
  on a transport failure, an API error on every status other than 200, the other statuses
  of 200..299 included, a parse error on a body that does not decode, and no models on an
  empty list. In each case \<^verbatim>\<open>modelStatus\<close> ends with the matching tag, after
  \<^verbatim>\<open>checking_models\<close> and exactly one request. Where the status is 200 or outside 200..299
  this is what the specification asks of the fetcher.
\<close>

theorem getAvailableModel_first_or_failure:
  "map_sum failure_of id (fst (getAvailableModel env w)) =
     map_sum Some id (fetch_by (\<lambda>code. code = 200) env (http_reply env (http_calls w)))
   \<and> modelStatus (snd (getAvailableModel env w)) =
       (case fetch_by (\<lambda>code. code = 200) env (http_reply env (http_calls w)) of
          Inl f \<Rightarrow> failure_tag f | Inr name \<Rightarrow> ModelFound)
   \<and> trace (snd (getAvailableModel env w)) =
       trace w @ [SetStatus CheckingModels, HttpGet (ollamaURL w @ ''/api/tags''),
                  SetStatus (modelStatus (snd (getAvailableModel env w)))]
   \<and> ((\<forall>code body. http_reply env (http_calls w) = Reply code body \<longrightarrow>
          code = 200 \<or> \<not> success_status code) \<longrightarrow>
        fetch_by (\<lambda>code. code = 200) env (http_reply env (http_calls w)) =
          fetch_spec env (http_reply env (http_calls w)))
   \<and> (\<forall>code body. http_reply env (http_calls w) = Reply code body \<and> code \<noteq> 200 \<longrightarrow>
          fst (getAvailableModel env w) = Inl (BadStatus code)
          \<and> modelStatus (snd (getAvailableModel env w)) = ErrorAPI)"
proof (intro conjI)
  show "map_sum failure_of id (fst (getAvailableModel env w)) =
     map_sum Some id (fetch_by (\<lambda>code. code = 200) env (http_reply env (http_calls w)))"
    by (auto simp: getAvailableModel_def fetch_by_def httpGet_def Let_def
           split: reply.splits option.splits list.splits)
  show "modelStatus (snd (getAvailableModel env w)) =
       (case fetch_by (\<lambda>code. code = 200) env (http_reply env (http_calls w)) of
          Inl f \<Rightarrow> failure_tag f | Inr name \<Rightarrow> ModelFound)"
    by (auto simp: getAvailableModel_def fetch_by_def prims Let_def
           split: reply.splits option.splits list.splits)
  show "trace (snd (getAvailableModel env w)) =
       trace w @ [SetStatus CheckingModels, HttpGet (ollamaURL w @ ''/api/tags''),
                  SetStatus (modelStatus (snd (getAvailableModel env w)))]"
    by (auto simp: getAvailableModel_def prims Let_def
           split: reply.splits option.splits list.splits)
  show "(\<forall>code body. http_reply env (http_calls w) = Reply code body \<longrightarrow>
          code = 200 \<or> \<not> success_status code) \<longrightarrow>
        fetch_by (\<lambda>code. code = 200) env (http_reply env (http_calls w)) =
          fetch_spec env (http_reply env (http_calls w))"
    by (cases "http_reply env (http_calls w)")
       (auto simp: fetch_spec_def fetch_by_def success_status_def)
  show "\<forall>code body. http_reply env (http_calls w) = Reply code body \<and> code \<noteq> 200 \<longrightarrow>
          fst (getAvailableModel env w) = Inl (BadStatus code)
          \<and> modelStatus (snd (getAvailableModel env w)) = ErrorAPI"
    by (auto simp: getAvailableModel_def prims Let_def)
qed

theorem getAvailableModel_first_or_failure_witness:
  "map_sum failure_of id (fst (getAvailableModel sample_env (init_world sample_url True))) =
     Inr ''m1''
   \<and> modelStatus (snd (getAvailableModel sample_env (init_world sample_url True))) =
       ModelFound
   \<and> fetch_spec sample_env (http_reply sample_env 0) = Inr ''m1''
   \<and> map_sum failure_of id (fst (getAvailableModel down_env (init_world sample_url True))) =
       Inl (Some ConnectionError)
   \<and> modelStatus (snd (getAvailableModel down_env (init_world sample_url True))) =
       ErrorConnecting
   \<and> fst (getAvailableModel created_env (init_world sample_url True)) = Inl (BadStatus 201)
   \<and> modelStatus (snd (getAvailableModel created_env (init_world sample_url True))) =
       ErrorAPI"
proof -
  note a = getAvailableModel_first_or_failure [of sample_env "init_world sample_url True"]
  note b = getAvailableModel_first_or_failure [of down_env "init_world sample_url True"]
  note c = getAvailableModel_first_or_failure [of created_env "init_world sample_url True"]
  have r: "http_reply sample_env (http_calls (init_world sample_url True)) =
      Reply 200 sample_tags_body"
    "http_reply down_env (http_calls (init_world sample_url True)) = TransportErr"
    "http_reply created_env (http_calls (init_world sample_url True)) =
      Reply 201 sample_tags_body"
    by (simp_all add: sample_env_def down_env_def created_env_def)
  have f: "fetch_by (\<lambda>code. code = 200) sample_env (Reply 200 sample_tags_body) = Inr ''m1''"
    "fetch_by (\<lambda>code. code = 200) down_env TransportErr = Inl ConnectionError"
    by (simp_all add: fetch_by_def sample_env_def sample_tags_body_def sample_model_def)
  from a r(1) have "fetch_by (\<lambda>code. code = 200) sample_env (Reply 200 sample_tags_body) =
      fetch_spec sample_env (Reply 200 sample_tags_body)"
    by simp
  with f(1) have s: "fetch_spec sample_env (http_reply sample_env 0) = Inr ''m1''"
    by (simp add: sample_env_def)
  have ne: "(201::nat) \<noteq> 200" by simp
  from c [THEN conjunct2, THEN conjunct2, THEN conjunct2, THEN conjunct2] r(3) ne
  have d: "fst (getAvailableModel created_env (init_world sample_url True)) =
      Inl (BadStatus 201)"
    "modelStatus (snd (getAvailableModel created_env (init_world sample_url True))) = ErrorAPI"
    by blast+
  have r0: "http_reply sample_env 0 = Reply 200 sample_tags_body"
    "http_reply down_env 0 = TransportErr"
    by (simp_all add: sample_env_def down_env_def)
  from a [THEN conjunct1] a [THEN conjunct2, THEN conjunct1]
    b [THEN conjunct1] b [THEN conjunct2, THEN conjunct1] s d
  show ?thesis
    by (simp add: r0 f)
qed

text \<open>
  C8 as stated does not hold: for a model listing answered with status 201, a success
  status, and a body with one model, the claim asks for the name of the first entry, and
  \<^verbatim>\<open>getAvailableModel\<close> fails with the API error and sets \<^verbatim>\<open>error_api\<close>.
\<close>

theorem getAvailableModel_rejects_other_success_status:
  "success_status 201
   \<and> fetch_spec created_env (http_reply created_env (http_calls (init_world sample_url True))) =
       Inr ''m1''
   \<and> fst (getAvailableModel created_env (init_world sample_url True)) = Inl (BadStatus 201)
   \<and> modelStatus (snd (getAvailableModel created_env (init_world sample_url True))) = ErrorAPI"
  by (simp add: success_status_def fetch_spec_def fetch_by_def getAvailableModel_def
        httpGet_def Let_def created_env_def sample_env_def sample_tags_body_def
        sample_model_def)

lemma getAvailableModel_run:
  assumes "getAvailableModel env w = (r, w')"
  shows "trace w' = trace w @ [SetStatus CheckingModels, HttpGet (ollamaURL w @ ''/api/tags''),
                               SetStatus (modelStatus w')]
     \<and> (case r of Inl e \<Rightarrow> is_fetch_error (modelStatus w') | Inr name \<Rightarrow> modelStatus w' = ModelFound)
     \<and> ollamaURL w' = ollamaURL w \<and> ollamaEnabled w' = ollamaEnabled w
     \<and> ollamaModel w' = ollamaModel w \<and> modelReady w' = modelReady w
     \<and> modelNeverReady w' = modelNeverReady w
     \<and> ws_writes w' = ws_writes w \<and> rand_calls w' = rand_calls w
     \<and> http_calls w' = Suc (http_calls w)
     \<and> fetched_name env (http_reply env (http_calls w)) =
         (case r of Inl e \<Rightarrow> None | Inr name \<Rightarrow> Some name)"
  using assms
  by (auto simp: getAvailableModel_def httpGet_def emit_def set_status_def Let_def
        fetched_name_def fetch_by_def
           split: reply.splits option.splits if_splits list.splits)

lemma getAvailableModel_invariant:
  assumes st: "\<And>w s. P w \<Longrightarrow> P (set_status s w)"
    and get: "\<And>w url. P w \<Longrightarrow> P (snd (httpGet env url w))"
    and "P w"
  shows "P (snd (getAvailableModel env w))"
proof -
  let ?w2 = "snd (httpGet env (ollamaURL w @ ''/api/tags'') (set_status CheckingModels w))"
  have c2: "P ?w2"
    using assms(3) by (intro get st)
  have "\<exists>s. snd (getAvailableModel env w) = set_status s ?w2"
    by (auto simp: getAvailableModel_def Let_def split: prod.splits reply.splits option.splits)
  then show ?thesis using c2 by (auto intro: st)
qed

lemma getAvailableModel_found:
  assumes "http_reply env (http_calls w) = Reply 200 body"
    and "unmarshalModels env body = Some ms" and "Models ms = m # rest"
  shows "getAvailableModel env w =
           (Inr (Name m),
            set_status ModelFound
              (snd (httpGet env (ollamaURL w @ ''/api/tags'') (set_status CheckingModels w))))"
  using assms by (simp add: getAvailableModel_def httpGet_def Let_def)
section \<open>The stream relay\<close>

subsection \<open>Chunks\<close>

lemma chunks_simps [simp]:
  "chunks env [] = []"
  "chunks env (l # ls) =
     (if MaxScanTokenSize \<le> length l then []
      else case unmarshalStream env (dropCR l) of
             None \<Rightarrow> chunks env ls
           | Some c \<Rightarrow> c # chunks env ls)"
  by (simp_all add: chunks_def scanned_def List.map_filter_def split: option.splits)

lemma chunks_append [simp]:
  "\<forall>l \<in> set xs. length l < MaxScanTokenSize \<Longrightarrow>
     chunks env (xs @ ys) = chunks env xs @ chunks env ys"
  by (induction xs) (simp_all split: option.splits)

lemma wrote_simps [simp]:
  "wrote [] = []" "wrote (c # cs) = WsWrite (Response c) True # wrote cs"
  "wrote (xs @ ys) = wrote xs @ wrote ys"
  by (simp_all add: wrote_def)

lemma text_of_simps [simp]:
  "text_of [] = []" "text_of (c # cs) = Response c @ text_of cs"
  "text_of (xs @ ys) = text_of xs @ text_of ys"
  by (simp_all add: text_of_def)

lemma observe_wrote [simp]:
  "ws_sent (wrote cs) = map Response cs" "saved (wrote cs) = []" "posts (wrote cs) = []"
  by (induction cs) simp_all

subsection \<open>The scanner loop\<close>

text \<open>A line that does not decode leaves the loop as it is.\<close>

lemma streamLoop_skip:
  "unmarshalStream env (dropCR bad) = None \<Longrightarrow> length bad < MaxScanTokenSize \<Longrightarrow>
     streamLoop env (pre @ bad # post) full w = streamLoop env (pre @ post) full w"
  by (induction pre arbitrary: full w) (auto split: option.splits prod.splits bool.splits)

text \<open>Leading lines whose chunks are all written and none of which is final.\<close>

lemma streamLoop_prefix:
  "\<forall>l \<in> set pre. length l < MaxScanTokenSize \<Longrightarrow>
   \<forall>c \<in> set (chunks env pre). \<not> Done c \<Longrightarrow>
   \<forall>i < length (chunks env pre). ws_ok env (ws_writes w + i) \<Longrightarrow>
   \<exists>w'. streamLoop env (pre @ rest) full w =
          streamLoop env rest (full @ text_of (chunks env pre)) w'
      \<and> trace w' = trace w @ wrote (chunks env pre)
      \<and> ws_writes w' = ws_writes w + length (chunks env pre)"
proof (induction pre arbitrary: full w)
  case Nil
  show ?case by (intro exI [of _ w]) simp
next
  case (Cons l pre)
  from Cons.prems(1) have short: "\<not> MaxScanTokenSize \<le> length l"
    and rest_short: "\<forall>l \<in> set pre. length l < MaxScanTokenSize"
    by simp_all
  show ?case
  proof (cases "unmarshalStream env (dropCR l)")
    case None
    with Cons.IH [OF rest_short, of w full] Cons.prems short show ?thesis by simp
  next
    case (Some c)
    from Cons.prems(2) Some short have nd: "\<not> Done c"
      and rest_nd: "\<forall>c \<in> set (chunks env pre). \<not> Done c"
      by simp_all
    from Cons.prems(3) Some short
    have all_ok: "\<forall>i < Suc (length (chunks env pre)). ws_ok env (ws_writes w + i)"
      by simp
    from all_ok have ok0: "ws_ok env (ws_writes w)"
      by (metis add.right_neutral zero_less_Suc)
    let ?w1 = "snd (WriteMessage env (Response c) w)"
    have w1: "trace ?w1 = trace w @ [WsWrite (Response c) True]"
      "ws_writes ?w1 = Suc (ws_writes w)"
      using ok0 by (simp_all add: WriteMessage_def emit_def)
    have rest_ok: "\<forall>i < length (chunks env pre). ws_ok env (ws_writes ?w1 + i)"
    proof (intro allI impI)
      fix i assume "i < length (chunks env pre)"
      then have "Suc i < Suc (length (chunks env pre))" by simp
      with all_ok have "ws_ok env (ws_writes w + Suc i)" by blast
      then show "ws_ok env (ws_writes ?w1 + i)" by (simp add: w1)
    qed
    have step: "streamLoop env ((l # pre) @ rest) full w =
            streamLoop env (pre @ rest) (full @ Response c) ?w1"
      using Some nd ok0 short by (simp add: WriteMessage_def)
    from Cons.IH [OF rest_short rest_nd rest_ok, of "full @ Response c"]
    obtain w' where
      "streamLoop env (pre @ rest) (full @ Response c) ?w1 =
         streamLoop env rest ((full @ Response c) @ text_of (chunks env pre)) w'"
      and "trace w' = trace ?w1 @ wrote (chunks env pre)"
      and "ws_writes w' = ws_writes ?w1 + length (chunks env pre)"
      by blast
    with step Some short show ?thesis
      by (intro exI [of _ w']) (simp add: w1)
  qed
qed

text \<open>With a client that takes every write, the loop writes the chunks up to the final one.\<close>

lemma streamLoop_all_ok:
  "\<forall>k. ws_ok env k \<Longrightarrow>
   fst (streamLoop env lines full w) = full @ text_of (upto_done (chunks env lines))
   \<and> trace (snd (streamLoop env lines full w)) =
       trace w @ wrote (upto_done (chunks env lines))"
  by (induction lines arbitrary: full w)
     (auto simp: WriteMessage_def emit_def split: option.splits)

text \<open>
  Whatever the client does, the texts handed to it are an initial segment of the texts of
  the chunks, in arrival order.
\<close>

lemma streamLoop_writes_in_order:
  "\<exists>n. ws_sent (trace (snd (streamLoop env lines full w))) =
         ws_sent (trace w) @ take n (map Response (upto_done (chunks env lines)))"
proof (induction lines arbitrary: full w)
  case Nil
  then show ?case by simp
next
  case (Cons l lines)
  show ?case
  proof (cases "MaxScanTokenSize \<le> length l")
    case True
    then show ?thesis by simp
  next
    case short: False
  show ?thesis
  proof (cases "unmarshalStream env (dropCR l)")
    case None
    with Cons.IH [of full w] short show ?thesis by simp
  next
    case (Some c)
    let ?w1 = "snd (WriteMessage env (Response c) w)"
    have sent1: "ws_sent (trace ?w1) = ws_sent (trace w) @ [Response c]"
      by (simp add: WriteMessage_def emit_def)
    show ?thesis
    proof (cases "ws_ok env (ws_writes w) \<and> \<not> Done c")
      case True
      then have step: "streamLoop env (l # lines) full w =
          streamLoop env lines (full @ Response c) ?w1"
        using Some short by (simp add: WriteMessage_def)
      from Cons.IH [of "full @ Response c" ?w1] obtain n where
        "ws_sent (trace (snd (streamLoop env lines (full @ Response c) ?w1))) =
           ws_sent (trace ?w1) @ take n (map Response (upto_done (chunks env lines)))"
        by blast
      with True Some short show ?thesis
        unfolding step sent1 by (intro exI [of _ "Suc n"]) simp
    next
      case False
      then have "snd (streamLoop env (l # lines) full w) = ?w1"
        using Some short by (auto simp: WriteMessage_def split: bool.splits)
      with Some short show ?thesis
        unfolding sent1 by (intro exI [of _ "Suc 0"]) (simp add: sent1)
    qed
  qed
  qed
qed

text \<open>The loop consults the environment only for the decoder and the client.\<close>

lemma streamLoop_env_cong:
  "unmarshalStream env' = unmarshalStream env \<Longrightarrow> ws_ok env' = ws_ok env \<Longrightarrow>
     streamLoop env' lines full w = streamLoop env lines full w"
  by (induction lines arbitrary: full w)
     (auto simp: WriteMessage_def split: option.splits bool.splits)

lemma relay_trace_all_ok:
  assumes "\<forall>k. ws_ok env k" and "stream_reply env (http_calls w) = Reply code lines"
  shows "trace (streamOllamaResponse env prompt w) =
           trace w @ [HttpPost (ollamaURL w @ ''/api/generate'')
                        \<lparr>Model = ollamaModel w, Prompt = prompt, Stream = True\<rparr>]
             @ wrote (upto_done (chunks env lines))
             @ [SaveMessage ''AI'' (text_of (upto_done (chunks env lines)))]"
proof -
  let ?w1 = "snd (httpPostStream env (ollamaURL w @ ''/api/generate'')
                    \<lparr>Model = ollamaModel w, Prompt = prompt, Stream = True\<rparr> w)"
  have "streamOllamaResponse env prompt w =
          saveMessage ''AI'' (fst (streamLoop env lines [] ?w1))
            (snd (streamLoop env lines [] ?w1))"
    using assms(2)
    by (simp add: streamOllamaResponse_def httpPostStream_def split: prod.splits)
  with streamLoop_all_ok [OF assms(1), of lines "[]" ?w1] show ?thesis
    by (simp add: saveMessage_def emit_def httpPostStream_def)
qed

lemma sample_ws_ok: "\<forall>k. ws_ok sample_env k"
  by (simp add: sample_env_def)

lemma sample_stream_reply:
  "stream_reply sample_env (http_calls sample_ready_world) =
     Reply 200 [line_Hel, line_lo, line_done]"
  by (simp add: sample_env_def)

lemma sample_decodes:
  "unmarshalStream sample_env line_Hel = Some \<lparr>Response = ''Hel'', Done = False\<rparr>"
  "unmarshalStream sample_env line_lo = Some \<lparr>Response = ''lo'', Done = False\<rparr>"
  "unmarshalStream sample_env line_done = Some \<lparr>Response = [], Done = True\<rparr>"
  "unmarshalStream sample_env line_malformed = None"
  by (simp_all add: sample_defs)

lemma sample_lines [simp]:
  "length line_Hel < MaxScanTokenSize" "length line_lo < MaxScanTokenSize"
  "length line_done < MaxScanTokenSize" "length line_malformed < MaxScanTokenSize"
  "\<not> MaxScanTokenSize \<le> length line_Hel" "\<not> MaxScanTokenSize \<le> length line_lo"
  "\<not> MaxScanTokenSize \<le> length line_done" "\<not> MaxScanTokenSize \<le> length line_malformed"
  "dropCR line_Hel = line_Hel" "dropCR line_lo = line_lo" "dropCR line_done = line_done"
  "dropCR line_malformed = line_malformed"
  by (simp_all add: sample_defs MaxScanTokenSize_def dropCR_def)

lemma long_line_facts:
  "length long_line = MaxScanTokenSize" "dropCR long_line = long_line"
  "unmarshalStream long_env long_line = None"
proof -
  show len: "length long_line = MaxScanTokenSize"
    by (simp add: long_line_def MaxScanTokenSize_def)
  show "dropCR long_line = long_line"
    by (simp add: long_line_def dropCR_def)
  have "long_line \<noteq> l" if "length l < MaxScanTokenSize" for l
    using that len by auto
  then have "long_line \<noteq> line_Hel" "long_line \<noteq> line_lo" "long_line \<noteq> line_done"
    by simp_all
  then show "unmarshalStream long_env long_line = None"
    by (simp add: long_env_def sample_env_def)
qed

subsection \<open>Order of forwarding\<close>

text \<open>
  C3 (as amended). \<^verbatim>\<open>streamOllamaResponse\<close> hands the client the texts of the decoded chunks
  strictly in upstream arrival order: what it writes is always an initial segment of the
  texts of the chunks up to and including the first chunk with \<^verbatim>\<open>done\<close> set. With a client
  that takes every write it is all of them, and their concatenation is then saved as the AI
  output. For the three lines \<^verbatim>\<open>{"response":"Hel","done":false}\<close>,
  \<^verbatim>\<open>{"response":"lo","done":false}\<close>, \<^verbatim>\<open>{"response":"","done":true}\<close> such a client is sent
  \<open>Hel\<close>, \<open>lo\<close> and then the empty text of the final chunk, three writes in this order,
  and the saved text is \<open>Hello\<close>.
\<close>

theorem relay_forwards_in_arrival_order:
  assumes "stream_reply env (http_calls w) = Reply code lines"
  shows "(\<exists>n. ws_sent (trace (streamOllamaResponse env prompt w)) =
              ws_sent (trace w) @ take n (map Response (upto_done (chunks env lines))))
         \<and> ((\<forall>k. ws_ok env k) \<longrightarrow>
              trace (streamOllamaResponse env prompt w) =
                trace w @ [HttpPost (ollamaURL w @ ''/api/generate'')
                             \<lparr>Model = ollamaModel w, Prompt = prompt, Stream = True\<rparr>]
                  @ wrote (upto_done (chunks env lines))
                  @ [SaveMessage ''AI'' (text_of (upto_done (chunks env lines)))])
         \<and> ((\<forall>k. ws_ok env k) \<and> lines = [line_Hel, line_lo, line_done]
              \<and> unmarshalStream env line_Hel = Some \<lparr>Response = ''Hel'', Done = False\<rparr>
              \<and> unmarshalStream env line_lo = Some \<lparr>Response = ''lo'', Done = False\<rparr>
              \<and> unmarshalStream env line_done = Some \<lparr>Response = [], Done = True\<rparr>
            \<longrightarrow> ws_sent (trace (streamOllamaResponse env prompt w)) =
                  ws_sent (trace w) @ [''Hel'', ''lo'', []]
                \<and> saved (trace (streamOllamaResponse env prompt w)) =
                  saved (trace w) @ [(''AI'', ''Hello'')])"
proof (intro conjI impI)
  let ?w1 = "snd (httpPostStream env (ollamaURL w @ ''/api/generate'')
                    \<lparr>Model = ollamaModel w, Prompt = prompt, Stream = True\<rparr> w)"
  have w1: "ws_sent (trace ?w1) = ws_sent (trace w)"
    by (simp add: httpPostStream_def emit_def)
  have "streamOllamaResponse env prompt w =
          saveMessage ''AI'' (fst (streamLoop env lines [] ?w1))
            (snd (streamLoop env lines [] ?w1))"
    using assms
    by (simp add: streamOllamaResponse_def httpPostStream_def split: prod.splits)
  then have "ws_sent (trace (streamOllamaResponse env prompt w)) =
          ws_sent (trace (snd (streamLoop env lines [] ?w1)))"
    by (simp add: saveMessage_def emit_def)
  with streamLoop_writes_in_order [of env lines "[]" ?w1] w1
  show "\<exists>n. ws_sent (trace (streamOllamaResponse env prompt w)) =
              ws_sent (trace w) @ take n (map Response (upto_done (chunks env lines)))"
    by simp
next
  assume ok: "\<forall>k. ws_ok env k"
  show "trace (streamOllamaResponse env prompt w) =
           trace w @ [HttpPost (ollamaURL w @ ''/api/generate'')
                        \<lparr>Model = ollamaModel w, Prompt = prompt, Stream = True\<rparr>]
             @ wrote (upto_done (chunks env lines))
             @ [SaveMessage ''AI'' (text_of (upto_done (chunks env lines)))]"
    by (rule relay_trace_all_ok [OF ok assms])
next
  assume h: "(\<forall>k. ws_ok env k) \<and> lines = [line_Hel, line_lo, line_done]
              \<and> unmarshalStream env line_Hel = Some \<lparr>Response = ''Hel'', Done = False\<rparr>
              \<and> unmarshalStream env line_lo = Some \<lparr>Response = ''lo'', Done = False\<rparr>
              \<and> unmarshalStream env line_done = Some \<lparr>Response = [], Done = True\<rparr>"
  then have ok: "\<forall>k. ws_ok env k" by blast
  from h have cs: "upto_done (chunks env lines) =
      [\<lparr>Response = ''Hel'', Done = False\<rparr>, \<lparr>Response = ''lo'', Done = False\<rparr>,
       \<lparr>Response = [], Done = True\<rparr>]"
    by simp
  show "ws_sent (trace (streamOllamaResponse env prompt w)) =
                  ws_sent (trace w) @ [''Hel'', ''lo'', []]"
    by (simp add: relay_trace_all_ok [OF ok assms] cs)
  show "saved (trace (streamOllamaResponse env prompt w)) =
                  saved (trace w) @ [(''AI'', ''Hello'')]"
    by (simp add: relay_trace_all_ok [OF ok assms] cs)
qed

theorem relay_forwards_in_arrival_order_witness:
  "ws_sent (trace (streamOllamaResponse sample_env ''Hi'' sample_ready_world)) =
     [''Hel'', ''lo'', []]
   \<and> saved (trace (streamOllamaResponse sample_env ''Hi'' sample_ready_world)) =
     [(''AI'', ''Hello'')]"
proof -
  note th = relay_forwards_in_arrival_order [OF sample_stream_reply, of "''Hi''"]
  from th [THEN conjunct2, THEN conjunct2] sample_ws_ok sample_decodes
  show ?thesis
    by (simp add: sample_ready_world_def init_world_def)
qed

text \<open>
  C3 as stated does not hold: on the three lines the text of the final chunk is written
  as well, so the writes are not exactly \<open>Hel\<close> and \<open>lo\<close>.
\<close>

theorem relay_also_writes_final_chunk:
  "ws_sent (trace (streamOllamaResponse sample_env ''Hi'' sample_ready_world)) =
     [''Hel'', ''lo'', []]
   \<and> ws_sent (trace (streamOllamaResponse sample_env ''Hi'' sample_ready_world)) \<noteq>
     [''Hel'', ''lo'']"
  by (simp add: streamOllamaResponse_def httpPostStream_def WriteMessage_def emit_def
        saveMessage_def sample_ready_world_def sample_defs MaxScanTokenSize_def dropCR_def
        view_of_def Let_def)

subsection \<open>Malformed lines\<close>

lemma chunks_skip:
  "unmarshalStream env (dropCR bad) = None \<Longrightarrow> length bad < MaxScanTokenSize \<Longrightarrow>
     chunks env (pre @ bad # post) = chunks env (pre @ post)"
  by (induction pre) (simp_all split: option.splits)

text \<open>A line that does not fit the scanner's buffer ends the loop like the end of the body.\<close>

lemma streamLoop_long:
  "MaxScanTokenSize \<le> length bad \<Longrightarrow>
     streamLoop env (pre @ bad # post) full w = streamLoop env pre full w"
  by (induction pre arbitrary: full w) (auto split: option.splits prod.splits bool.splits)

text \<open>
  C6 (as amended). When the streaming body has a line that does not decode between the
  lines \<open>pre\<close> and the lines \<open>post\<close>, and the line is shorter than the scanner's buffer of
  64 KiB, the relay does exactly what it does on the body without that line: the line is
  skipped without ending the relay. With a client that takes every write, the chunks of the
  other lines are written in order (up to the first final chunk) and the saved text is the
  concatenation of their texts: the malformed line adds nothing to it. A line of 64 KiB or
  more, malformed or not, is not skipped: the relay ends there as it does at the end of the
  body, the lines after it are not read, and what was written before it is saved.
\<close>

theorem malformed_line_is_skipped:
  assumes "stream_reply env (http_calls w) = Reply code (pre @ bad # post)"
  shows "(unmarshalStream env (dropCR bad) = None \<and> length bad < MaxScanTokenSize \<longrightarrow>
            streamOllamaResponse env prompt w =
              streamOllamaResponse (env\<lparr>stream_reply := \<lambda>k. Reply code (pre @ post)\<rparr>) prompt w
            \<and> ((\<forall>k. ws_ok env k) \<longrightarrow>
                 trace (streamOllamaResponse env prompt w) =
                   trace w @ [HttpPost (ollamaURL w @ ''/api/generate'')
                               \<lparr>Model = ollamaModel w, Prompt = prompt, Stream = True\<rparr>]
                     @ wrote (upto_done (chunks env (pre @ post)))
                     @ [SaveMessage ''AI'' (text_of (upto_done (chunks env (pre @ post))))]))
         \<and> (MaxScanTokenSize \<le> length bad \<longrightarrow>
              streamOllamaResponse env prompt w =
                streamOllamaResponse (env\<lparr>stream_reply := \<lambda>k. Reply code pre\<rparr>) prompt w)"
proof (intro conjI impI)
  assume h: "unmarshalStream env (dropCR bad) = None \<and> length bad < MaxScanTokenSize"
  let ?env' = "env\<lparr>stream_reply := \<lambda>k. Reply code (pre @ post)\<rparr>"
  have "streamLoop ?env' (pre @ post) [] w' = streamLoop env (pre @ post) [] w'" for w'
    by (rule streamLoop_env_cong) simp_all
  then have "streamLoop ?env' (pre @ post) [] w' = streamLoop env (pre @ bad # post) [] w'"
    for w'
    using h by (simp add: streamLoop_skip)
  then show "streamOllamaResponse env prompt w = streamOllamaResponse ?env' prompt w"
    using assms by (simp add: streamOllamaResponse_def httpPostStream_def)
next
  assume h: "unmarshalStream env (dropCR bad) = None \<and> length bad < MaxScanTokenSize"
    and ok: "\<forall>k. ws_ok env k"
  from h have "chunks env (pre @ bad # post) = chunks env (pre @ post)"
    by (simp add: chunks_skip)
  with relay_trace_all_ok [OF ok assms, of prompt]
  show "trace (streamOllamaResponse env prompt w) =
                trace w @ [HttpPost (ollamaURL w @ ''/api/generate'')
                            \<lparr>Model = ollamaModel w, Prompt = prompt, Stream = True\<rparr>]
                  @ wrote (upto_done (chunks env (pre @ post)))
                  @ [SaveMessage ''AI'' (text_of (upto_done (chunks env (pre @ post))))]"
    by simp
next
  assume long: "MaxScanTokenSize \<le> length bad"
  let ?env' = "env\<lparr>stream_reply := \<lambda>k. Reply code pre\<rparr>"
  have "streamLoop ?env' pre [] w' = streamLoop env pre [] w'" for w'
    by (rule streamLoop_env_cong) simp_all
  then have "streamLoop ?env' pre [] w' = streamLoop env (pre @ bad # post) [] w'" for w'
    using long by (simp add: streamLoop_long)
  then show "streamOllamaResponse env prompt w = streamOllamaResponse ?env' prompt w"
    using assms by (simp add: streamOllamaResponse_def httpPostStream_def)
qed

theorem malformed_line_is_skipped_witness:
  "ws_sent (trace (streamOllamaResponse malformed_env ''Hi'' sample_ready_world)) =
     [''Hel'', ''lo'']
   \<and> saved (trace (streamOllamaResponse malformed_env ''Hi'' sample_ready_world)) =
     [(''AI'', ''Hello'')]
   \<and> streamOllamaResponse long_env ''Hi'' sample_ready_world =
     streamOllamaResponse (long_env\<lparr>stream_reply := \<lambda>k. Reply 200 [line_Hel]\<rparr>) ''Hi''
       sample_ready_world"
proof -
  have bad: "unmarshalStream malformed_env (dropCR line_malformed) = None"
    "length line_malformed < MaxScanTokenSize"
    by (simp_all add: malformed_env_def sample_defs MaxScanTokenSize_def dropCR_def)
  have reply: "stream_reply malformed_env (http_calls sample_ready_world) =
      Reply 200 ([line_Hel] @ line_malformed # [line_lo])"
    by (simp add: malformed_env_def)
  have ok: "\<forall>k. ws_ok malformed_env k"
    by (simp add: malformed_env_def sample_env_def)
  have dec: "unmarshalStream malformed_env line_Hel = Some \<lparr>Response = ''Hel'', Done = False\<rparr>"
    "unmarshalStream malformed_env line_lo = Some \<lparr>Response = ''lo'', Done = False\<rparr>"
    by (simp_all add: malformed_env_def sample_defs)
  from malformed_line_is_skipped [OF reply, of "''Hi''"] bad ok
  have "trace (streamOllamaResponse malformed_env ''Hi'' sample_ready_world) =
          trace sample_ready_world @
            [HttpPost (ollamaURL sample_ready_world @ ''/api/generate'')
               \<lparr>Model = ollamaModel sample_ready_world, Prompt = ''Hi'', Stream = True\<rparr>]
            @ wrote (upto_done (chunks malformed_env ([line_Hel] @ [line_lo])))
            @ [SaveMessage ''AI''
                 (text_of (upto_done (chunks malformed_env ([line_Hel] @ [line_lo]))))]"
    by blast
  then have short: "ws_sent (trace (streamOllamaResponse malformed_env ''Hi'' sample_ready_world)) =
       [''Hel'', ''lo'']
     \<and> saved (trace (streamOllamaResponse malformed_env ''Hi'' sample_ready_world)) =
       [(''AI'', ''Hello'')]"
    by (simp add: dec sample_ready_world_def init_world_def)
  have reply': "stream_reply long_env (http_calls sample_ready_world) =
      Reply 200 ([line_Hel] @ long_line # [line_lo])"
    by (simp add: long_env_def)
  have long: "MaxScanTokenSize \<le> length long_line"
    by (simp add: long_line_facts)
  from malformed_line_is_skipped [OF reply', of "''Hi''"] long
  have "streamOllamaResponse long_env ''Hi'' sample_ready_world =
     streamOllamaResponse (long_env\<lparr>stream_reply := \<lambda>k. Reply 200 [line_Hel]\<rparr>) ''Hi''
       sample_ready_world"
    by blast
  with short show ?thesis by blast
qed

text \<open>
  C6 as stated does not hold for every upstream stream: on the lines
  \<^verbatim>\<open>{"response":"Hel","done":false}\<close>, a malformed line of 65536 bytes and
  \<^verbatim>\<open>{"response":"lo","done":false}\<close> the relay ends at the malformed line. The client is
  sent \<open>Hel\<close> only and \<open>Hel\<close> is saved, while on the body without the malformed line it is
  sent \<open>Hel\<close> and \<open>lo\<close>.
\<close>

theorem long_malformed_line_ends_relay:
  "unmarshalStream long_env (dropCR long_line) = None
   \<and> ws_sent (trace (streamOllamaResponse long_env ''Hi'' sample_ready_world)) = [''Hel'']
   \<and> saved (trace (streamOllamaResponse long_env ''Hi'' sample_ready_world)) =
       [(''AI'', ''Hel'')]
   \<and> ws_sent (trace (streamOllamaResponse
         (long_env\<lparr>stream_reply := \<lambda>k. Reply 200 [line_Hel, line_lo]\<rparr>) ''Hi''
         sample_ready_world)) = [''Hel'', ''lo'']"
  by (simp add: long_line_facts)
     (simp add: streamOllamaResponse_def httpPostStream_def WriteMessage_def emit_def
        saveMessage_def sample_ready_world_def long_env_def sample_defs MaxScanTokenSize_def
        dropCR_def long_line_facts view_of_def Let_def)

subsection \<open>A client that is gone\<close>

text \<open>
  C7. When the write of a chunk fails after the chunks of the lines \<open>pre\<close> have been written
  (none of them final), the relay stops there: nothing of the remaining lines is written,
  and the text of the chunks written before the failure is still saved as the AI output.
  \<^verbatim>\<open>streamOllamaResponse\<close> has no result, so its caller is told of no error. The lines up
  to the chunk whose write fails are lines that the scanner delivers, each shorter than its
  buffer.
\<close>

theorem failed_write_ends_relay_and_saves:
  assumes "stream_reply env (http_calls w) = Reply code (pre @ l # post)"
    and "\<forall>x \<in> set (pre @ [l]). length x < MaxScanTokenSize"
    and "unmarshalStream env (dropCR l) = Some c"
    and "\<forall>c' \<in> set (chunks env pre). \<not> Done c'"
    and "\<forall>i < length (chunks env pre). ws_ok env (ws_writes w + i)"
    and "\<not> ws_ok env (ws_writes w + length (chunks env pre))"
  shows "trace (streamOllamaResponse env prompt w) =
           trace w @ [HttpPost (ollamaURL w @ ''/api/generate'')
                        \<lparr>Model = ollamaModel w, Prompt = prompt, Stream = True\<rparr>]
             @ wrote (chunks env pre)
             @ [WsWrite (Response c) False, SaveMessage ''AI'' (text_of (chunks env pre))]"
proof -
  let ?w1 = "snd (httpPostStream env (ollamaURL w @ ''/api/generate'')
                    \<lparr>Model = ollamaModel w, Prompt = prompt, Stream = True\<rparr> w)"
  have w1: "trace ?w1 = trace w @ [HttpPost (ollamaURL w @ ''/api/generate'')
                        \<lparr>Model = ollamaModel w, Prompt = prompt, Stream = True\<rparr>]"
    "ws_writes ?w1 = ws_writes w"
    by (simp_all add: httpPostStream_def emit_def)
  from assms(2) have short: "\<forall>x \<in> set pre. length x < MaxScanTokenSize"
    and l_short: "\<not> MaxScanTokenSize \<le> length l"
    by simp_all
  have ok: "\<forall>i < length (chunks env pre). ws_ok env (ws_writes ?w1 + i)"
    using assms(5) by (simp add: w1)
  from streamLoop_prefix [OF short assms(4) ok, of "l # post" "[]"]
  obtain w' where run: "streamLoop env (pre @ l # post) [] ?w1 =
          streamLoop env (l # post) ([] @ text_of (chunks env pre)) w'"
    and tr: "trace w' = trace ?w1 @ wrote (chunks env pre)"
    and wr: "ws_writes w' = ws_writes ?w1 + length (chunks env pre)"
    by blast
  have fail: "\<not> ws_ok env (ws_writes w')"
    using assms(6) by (simp add: wr w1)
  have last: "streamLoop env (l # post) ([] @ text_of (chunks env pre)) w' =
      (text_of (chunks env pre), snd (WriteMessage env (Response c) w'))"
    using assms(3) l_short fail by (simp add: WriteMessage_def)
  have res: "streamLoop env (pre @ l # post) [] ?w1 =
      (text_of (chunks env pre), snd (WriteMessage env (Response c) w'))"
    by (simp only: run last)
  have so: "streamOllamaResponse env prompt w =
          saveMessage ''AI'' (fst (streamLoop env (pre @ l # post) [] ?w1))
            (snd (streamLoop env (pre @ l # post) [] ?w1))"
    using assms(1)
    by (simp add: streamOllamaResponse_def httpPostStream_def split: prod.splits)
  have "streamOllamaResponse env prompt w =
          saveMessage ''AI'' (text_of (chunks env pre))
            (snd (WriteMessage env (Response c) w'))"
    by (simp only: so res fst_conv snd_conv)
  then show ?thesis
    using fail by (simp add: saveMessage_def emit_def WriteMessage_def tr w1)
qed

theorem failed_write_ends_relay_and_saves_witness:
  "trace (streamOllamaResponse flaky_env ''Hi'' sample_ready_world) =
     [HttpPost (sample_url @ ''/api/generate'') \<lparr>Model = ''m1'', Prompt = ''Hi'', Stream = True\<rparr>,
      WsWrite ''Hel'' True, WsWrite ''lo'' False, SaveMessage ''AI'' ''Hel'']"
proof -
  have reply: "stream_reply flaky_env (http_calls sample_ready_world) =
      Reply 200 ([line_Hel] @ line_lo # [line_done])"
    by (simp add: flaky_env_def sample_env_def)
  have short: "\<forall>x \<in> set ([line_Hel] @ [line_lo]). length x < MaxScanTokenSize"
    by simp
  have l: "unmarshalStream flaky_env (dropCR line_lo) = Some \<lparr>Response = ''lo'', Done = False\<rparr>"
    by (simp, simp add: flaky_env_def sample_defs)
  have dec: "unmarshalStream flaky_env line_Hel = Some \<lparr>Response = ''Hel'', Done = False\<rparr>"
    by (simp add: flaky_env_def sample_defs)
  have nd: "\<forall>c' \<in> set (chunks flaky_env [line_Hel]). \<not> Done c'"
    by (simp add: dec)
  have ok: "\<forall>i < length (chunks flaky_env [line_Hel]).
              ws_ok flaky_env (ws_writes sample_ready_world + i)"
    by (simp add: dec, simp add: flaky_env_def sample_ready_world_def init_world_def)
  have fails: "\<not> ws_ok flaky_env
                 (ws_writes sample_ready_world + length (chunks flaky_env [line_Hel]))"
    by (simp add: dec, simp add: flaky_env_def sample_ready_world_def init_world_def)
  show ?thesis
    using failed_write_ends_relay_and_saves [OF reply short l nd ok fails, of "''Hi''"]
    by (simp add: dec sample_ready_world_def init_world_def)
qed

subsection \<open>A generation call that cannot be made\<close>

text \<open>
  C10. When the streaming generation call fails with a transport error, the relay writes
  the one message \<open>Error processing request\<close> and returns: nothing is saved for the AI in
  that turn. In a connection whose readiness view is ready, the read loop then goes on with
  the remaining inbound messages.
\<close>

theorem transport_error_apology_only:
  assumes "stream_reply env (http_calls w) = TransportErr"
  shows "trace (streamOllamaResponse env prompt w) =
           trace w @ [HttpPost (ollamaURL w @ ''/api/generate'')
                        \<lparr>Model = ollamaModel w, Prompt = prompt, Stream = True\<rparr>,
                      WsWrite ''Error processing request'' (ws_ok env (ws_writes w))]
         \<and> saved (trace (streamOllamaResponse env prompt w)) = saved (trace w)
         \<and> (modelReady w \<and> \<not> modelNeverReady w \<longrightarrow>
              readLoop env (prompt # rest) w =
                readLoop env rest
                  (w\<lparr>http_calls := Suc (http_calls w),
                      ws_writes := Suc (ws_writes w),
                      trace := trace w @
                        [SaveMessage ''User'' prompt,
                         HttpPost (ollamaURL w @ ''/api/generate'')
                           \<lparr>Model = ollamaModel w, Prompt = prompt, Stream = True\<rparr>,
                         WsWrite ''Error processing request''
                           (ws_ok env (ws_writes w))],
                      views := views w @ [view_of w, view_of w, view_of w]\<rparr>))"
  using assms
  by (simp add: streamOllamaResponse_def handleMessage_def httpPostStream_def WriteMessage_def
        emit_def saveMessage_def view_of_def)

theorem transport_error_apology_only_witness:
  "trace (streamOllamaResponse down_env ''Hi'' sample_ready_world) =
     [HttpPost (sample_url @ ''/api/generate'') \<lparr>Model = ''m1'', Prompt = ''Hi'', Stream = True\<rparr>,
      WsWrite ''Error processing request'' True]
   \<and> saved (trace (readLoop down_env [''Hi''] sample_ready_world)) = [(''User'', ''Hi'')]"
proof -
  have reply: "stream_reply down_env (http_calls sample_ready_world) = TransportErr"
    by (simp add: down_env_def)
  show ?thesis
    using transport_error_apology_only [OF reply, of "''Hi''" "[]"]
    by (simp add: sample_ready_world_def init_world_def down_env_def sample_env_def)
qed

section \<open>The connection handler\<close>

lemma table_lengths [simp]: "length waitingMessages = 10" "length noAIMessages = 10"
  by (simp_all add: waitingMessages_def noAIMessages_def)

text \<open>
  C1. When the readiness flag is not set at the time an inbound message is processed, the
  handler makes no generation call (the relay is not invoked): it saves the message, makes
  exactly one write, of a message of the unavailable table when the permanently-unavailable
  flag is set and of the waiting table otherwise, and saves that message as the AI output.
\<close>

theorem not_ready_sends_one_canned_message:
  assumes "\<not> modelReady w"
  shows "trace (handleMessage env msg w) =
           trace w @
             [SaveMessage ''User'' msg,
              WsWrite ((if modelNeverReady w then noAIMessages else waitingMessages)
                         ! (rand_src env (rand_calls w) mod 10))
                (ws_ok env (ws_writes w)),
              SaveMessage ''AI''
                ((if modelNeverReady w then noAIMessages else waitingMessages)
                   ! (rand_src env (rand_calls w) mod 10))]
         \<and> (if modelNeverReady w then noAIMessages else waitingMessages)
               ! (rand_src env (rand_calls w) mod 10)
             \<in> set (if modelNeverReady w then noAIMessages else waitingMessages)
         \<and> posts (trace (handleMessage env msg w)) = posts (trace w)
         \<and> http_calls (handleMessage env msg w) = http_calls w"
  using assms
  by (simp add: handleMessage_def Intn_def WriteMessage_def emit_def saveMessage_def Let_def)

theorem not_ready_sends_one_canned_message_witness:
  "trace (handleMessage sample_env ''Hi'' (init_world sample_url True)) =
     [SaveMessage ''User'' ''Hi'', WsWrite (waitingMessages ! 3) True,
      SaveMessage ''AI'' (waitingMessages ! 3)]
   \<and> waitingMessages ! 3 \<in> set waitingMessages
   \<and> posts (trace (handleMessage sample_env ''Hi'' (init_world sample_url True))) = []"
proof -
  have nr: "\<not> modelReady (init_world sample_url True)"
    by (simp add: init_world_def)
  show ?thesis
    using not_ready_sends_one_canned_message [OF nr, of sample_env "''Hi''"]
    by (simp add: init_world_def sample_env_def)
qed

text \<open>The same for a whole connection: every message gets one entry of the table.\<close>

lemma handleMessage_not_ready:
  assumes "\<not> modelReady w"
  shows "trace (handleMessage env msg w) =
           trace w @ [SaveMessage ''User'' msg,
                      WsWrite (canned w ! (rand_src env (rand_calls w) mod 10))
                        (ws_ok env (ws_writes w)),
                      SaveMessage ''AI'' (canned w ! (rand_src env (rand_calls w) mod 10))]"
    and "modelReady (handleMessage env msg w) = modelReady w"
    and "modelNeverReady (handleMessage env msg w) = modelNeverReady w"
    and "rand_calls (handleMessage env msg w) = Suc (rand_calls w)"
    and "http_calls (handleMessage env msg w) = http_calls w"
  using assms
  by (simp_all add: handleMessage_def Intn_def WriteMessage_def emit_def saveMessage_def
        Let_def canned_def)

lemma readLoop_not_ready:
  "\<not> modelReady w \<Longrightarrow>
   ws_sent (trace (readLoop env msgs w)) =
     ws_sent (trace w) @
       map (\<lambda>i. canned w ! (rand_src env (rand_calls w + i) mod 10)) [0..<length msgs]
   \<and> posts (trace (readLoop env msgs w)) = posts (trace w)
   \<and> http_calls (readLoop env msgs w) = http_calls w"
proof (induction msgs arbitrary: w)
  case Nil
  then show ?case by simp
next
  case (Cons msg msgs)
  let ?w1 = "handleMessage env msg w"
  note h = handleMessage_not_ready [OF Cons.prems, of env msg]
  have nr: "\<not> modelReady ?w1" using h(2) Cons.prems by simp
  have c: "canned ?w1 = canned w" using h(3) by (simp add: canned_def)
  from Cons.IH [OF nr] show ?case
    by (simp add: h c map_upt_Suc del: upt_Suc)
qed

section \<open>The generation prober\<close>

subsection \<open>One attempt\<close>

lemma httpPost_probe:
  "httpPost env (ollamaURL w @ ''/api/generate'')
     \<lparr>Model = modelName, Prompt = ''Hi'', Stream = False\<rparr> w =
   (http_reply env (http_calls w), probe env modelName w)"
  by (simp add: probe_def httpPost_def)

lemma testLoop_retry:
  assumes "testAttempt < maxTestRetries"
    and "attempt_failure env (http_reply env (http_calls w)) = Some t"
  shows "testLoop env modelName maxTestRetries testAttempt w =
           testLoop env modelName maxTestRetries (Suc testAttempt)
             (sleep 2 (probe env modelName w))"
  using assms
  by (subst testLoop.simps)
     (auto simp: attempt_failure_def httpPost_probe Let_def
           split: reply.splits option.splits if_splits json.splits)

lemma testLoop_last:
  assumes "testAttempt = maxTestRetries"
    and "attempt_failure env (http_reply env (http_calls w)) = Some t"
  shows "\<exists>e. testLoop env modelName maxTestRetries testAttempt w =
           (Some e, set_status t (probe env modelName w))"
  using assms
  by (subst testLoop.simps)
     (auto simp: attempt_failure_def httpPost_probe Let_def
           split: reply.splits option.splits if_splits json.splits)

lemma testLoop_success:
  assumes "testAttempt \<le> maxTestRetries"
    and "attempt_failure env (http_reply env (http_calls w)) = None"
  shows "testLoop env modelName maxTestRetries testAttempt w =
           (None, probe env modelName w)"
  using assms
  by (subst testLoop.simps)
     (auto simp: attempt_failure_def httpPost_probe Let_def
           split: reply.splits option.splits if_splits json.splits)

lemma testLoop_over:
  assumes "maxTestRetries < testAttempt"
  shows "testLoop env modelName maxTestRetries testAttempt w =
           (Some (GenFailedAfter maxTestRetries), set_status ErrorGeneration w)"
  using assms by (subst testLoop.simps) simp

lemma attempt_failure_tag:
  "attempt_failure env r = Some t \<Longrightarrow> is_probe_error t"
  by (auto simp: attempt_failure_def split: reply.splits option.splits if_splits json.splits)

subsection \<open>Every attempt fails\<close>

lemma testLoop_all_fail:
  "k + n = N \<Longrightarrow>
   \<forall>i \<le> n. attempt_failure env (http_reply env (http_calls w + i)) \<noteq> None \<Longrightarrow>
   attempt_failure env (http_reply env (http_calls w + n)) = Some t \<Longrightarrow>
   \<exists>e w'. testLoop env m N k w = (Some e, w')
     \<and> trace w' = trace w @ concat (replicate n [probe_request w m, Sleep 2])
                     @ [probe_request w m, SetStatus t]
     \<and> http_calls w' = http_calls w + Suc n
     \<and> modelStatus w' = t"
proof (induction n arbitrary: k w)
  case 0
  then have "k = N" by simp
  from testLoop_last [OF this, of env w t m] "0.prems"(3)
  obtain e where "testLoop env m N k w = (Some e, set_status t (probe env m w))"
    by auto
  then show ?case by simp
next
  case (Suc n)
  then have lt: "k < N" by simp
  from Suc.prems(2) obtain t0 where
    f0: "attempt_failure env (http_reply env (http_calls w)) = Some t0"
    by (metis add.right_neutral le0 not_Some_eq)
  let ?w1 = "sleep 2 (probe env m w)"
  have step: "testLoop env m N k w = testLoop env m N (Suc k) ?w1"
    by (rule testLoop_retry [OF lt f0])
  have a: "Suc k + n = N" using Suc.prems(1) by simp
  have b: "\<forall>i \<le> n. attempt_failure env (http_reply env (http_calls ?w1 + i)) \<noteq> None"
  proof (intro allI impI)
    fix i assume "i \<le> n"
    then have "Suc i \<le> Suc n" by simp
    with Suc.prems(2) have "attempt_failure env (http_reply env (http_calls w + Suc i)) \<noteq> None"
      by blast
    then show "attempt_failure env (http_reply env (http_calls ?w1 + i)) \<noteq> None"
      by simp
  qed
  have c: "attempt_failure env (http_reply env (http_calls ?w1 + n)) = Some t"
    using Suc.prems(3) by simp
  from Suc.IH [OF a b c] obtain e w' where
    r: "testLoop env m N (Suc k) ?w1 = (Some e, w')"
    and tr: "trace w' = trace ?w1 @ concat (replicate n [probe_request ?w1 m, Sleep 2])
                     @ [probe_request ?w1 m, SetStatus t]"
    and hc: "http_calls w' = http_calls ?w1 + Suc n"
    and st: "modelStatus w' = t"
    by blast
  show ?case
    using step r tr hc st by simp
qed




subsection \<open>Any run of the prober\<close>

lemma testLoop_run_le:
  "N - k = n \<Longrightarrow> k \<le> N \<Longrightarrow> testLoop env m N k w = (r, w') \<Longrightarrow>
   \<exists>pevs. trace w' = trace w @ pevs \<and> list_all probe_event pevs
     \<and> statuses pevs = (case r of None \<Rightarrow> [] | Some e \<Rightarrow> [modelStatus w'])
     \<and> (r = None \<longrightarrow> modelStatus w' = modelStatus w)
     \<and> (r \<noteq> None \<longrightarrow> is_probe_error (modelStatus w'))
     \<and> ollamaURL w' = ollamaURL w \<and> ollamaEnabled w' = ollamaEnabled w
     \<and> ollamaModel w' = ollamaModel w \<and> modelReady w' = modelReady w
     \<and> modelNeverReady w' = modelNeverReady w
     \<and> ws_writes w' = ws_writes w \<and> rand_calls w' = rand_calls w"
proof (induction n arbitrary: k w)
  case 0
  then have kN: "k = N" by simp
  show ?case
  proof (cases "attempt_failure env (http_reply env (http_calls w))")
    case None
    from testLoop_success [OF "0.prems"(2) None, of m] "0.prems"(3)
    have "r = None" "w' = probe env m w" by simp_all
    then show ?thesis by simp
  next
    case (Some t)
    from testLoop_last [OF kN Some, of m] "0.prems"(3)
    have "r \<noteq> None" "w' = set_status t (probe env m w)" by auto
    then show ?thesis using attempt_failure_tag [OF Some] by auto
  qed
next
  case (Suc n)
  then have lt: "k < N" by simp
  show ?case
  proof (cases "attempt_failure env (http_reply env (http_calls w))")
    case None
    from testLoop_success [OF Suc.prems(2) None, of m] Suc.prems(3)
    have "r = None" "w' = probe env m w" by simp_all
    then show ?thesis by simp
  next
    case (Some t)
    let ?w1 = "sleep 2 (probe env m w)"
    from testLoop_retry [OF lt Some, of m] Suc.prems(3)
    have r: "testLoop env m N (Suc k) ?w1 = (r, w')" by simp
    have "N - Suc k = n" "Suc k \<le> N" using Suc.prems(1) lt by simp_all
    from Suc.IH [OF this r] obtain pevs where
      "trace w' = trace ?w1 @ pevs" "list_all probe_event pevs"
      "statuses pevs = (case r of None \<Rightarrow> [] | Some e \<Rightarrow> [modelStatus w'])"
      "r = None \<longrightarrow> modelStatus w' = modelStatus ?w1"
      "r \<noteq> None \<longrightarrow> is_probe_error (modelStatus w')"
      "ollamaURL w' = ollamaURL ?w1" "ollamaEnabled w' = ollamaEnabled ?w1"
      "ollamaModel w' = ollamaModel ?w1" "modelReady w' = modelReady ?w1"
      "modelNeverReady w' = modelNeverReady ?w1"
      "ws_writes w' = ws_writes ?w1" "rand_calls w' = rand_calls ?w1"
      by blast
    then show ?thesis
      by (intro exI [of _ "[probe_request w m, Sleep 2] @ pevs"]) simp
  qed
qed

lemma testModelGenerationN_run:
  assumes "testModelGenerationN env N m w = (r, w')"
  shows "\<exists>pevs. trace w' = trace w @ SetStatus TestingGeneration # pevs
     \<and> list_all probe_event pevs
     \<and> statuses pevs = (case r of None \<Rightarrow> [] | Some e \<Rightarrow> [modelStatus w'])
     \<and> (r = None \<longrightarrow> modelStatus w' = TestingGeneration)
     \<and> (r \<noteq> None \<longrightarrow> is_probe_error (modelStatus w'))
     \<and> ollamaURL w' = ollamaURL w \<and> ollamaEnabled w' = ollamaEnabled w
     \<and> ollamaModel w' = ollamaModel w \<and> modelReady w' = modelReady w
     \<and> modelNeverReady w' = modelNeverReady w
     \<and> ws_writes w' = ws_writes w \<and> rand_calls w' = rand_calls w"
proof (cases "1 \<le> N")
  case True
  from assms have "testLoop env m N 1 (set_status TestingGeneration w) = (r, w')"
    by (simp add: testModelGenerationN_def)
  from testLoop_run_le [OF refl True this] show ?thesis by simp
next
  case False
  then have "N < 1" by simp
  from testLoop_over [OF this, of env m "set_status TestingGeneration w"] assms
  have "r = Some (GenFailedAfter N)"
    "w' = set_status ErrorGeneration (set_status TestingGeneration w)"
    by (simp_all add: testModelGenerationN_def)
  then show ?thesis by simp
qed


subsection \<open>What every probe run preserves\<close>

lemma testLoop_invariant:
  assumes pr: "\<And>w. P w \<Longrightarrow> P (probe env m w)"
    and sl: "\<And>w d. P w \<Longrightarrow> P (sleep d w)"
    and st: "\<And>w s. P w \<Longrightarrow> P (set_status s w)"
  shows "Suc N - k = n \<Longrightarrow> P w \<Longrightarrow> P (snd (testLoop env m N k w))"
proof (induction n arbitrary: k w)
  case 0
  then have "N < k" by simp
  from testLoop_over [OF this, of env m w] "0.prems"(2) show ?case
    by (simp add: st)
next
  case (Suc n)
  then have le: "k \<le> N" by simp
  show ?case
  proof (cases "attempt_failure env (http_reply env (http_calls w))")
    case None
    from testLoop_success [OF le None, of m] Suc.prems(2) show ?thesis
      by (simp add: pr)
  next
    case (Some t)
    show ?thesis
    proof (cases "k < N")
      case True
      have "Suc N - Suc k = n" using Suc.prems(1) by simp
      from Suc.IH [OF this, of "sleep 2 (probe env m w)"] Suc.prems(2)
      have "P (snd (testLoop env m N (Suc k) (sleep 2 (probe env m w))))"
        by (simp add: pr sl)
      then show ?thesis
        by (simp only: testLoop_retry [OF True Some, of m])
    next
      case False
      with le have "k = N" by simp
      from testLoop_last [OF this Some, of m] obtain e where
        "testLoop env m N k w = (Some e, set_status t (probe env m w))"
        by blast
      with Suc.prems(2) show ?thesis by (simp add: pr st)
    qed
  qed
qed

lemma testModelGenerationN_invariant:
  assumes "\<And>w. P w \<Longrightarrow> P (probe env m w)"
    and "\<And>w d. P w \<Longrightarrow> P (sleep d w)"
    and "\<And>w s. P w \<Longrightarrow> P (set_status s w)"
    and "P w"
  shows "P (snd (testModelGenerationN env N m w))"
  unfolding testModelGenerationN_def
  by (rule testLoop_invariant [where P = P, OF assms(1-3) refl]) (simp_all add: assms)
section \<open>The readiness state machine\<close>

subsection \<open>One pass through the loop\<close>

lemma checkLoop_unfold:
  "checkLoop env M N a w =
     (if a \<le> M then
        (case attempt_body env N a w of
           (True, w') \<Rightarrow> w'
         | (False, w') \<Rightarrow> checkLoop env M N (Suc a) w')
      else set_status Failed w)"
  by (subst checkLoop.simps)
     (simp add: attempt_body_def Let_def split: prod.splits sum.splits option.splits)

lemma retry_fields [simp]:
  "trace (if Suc 0 < a then sleep 10 (set_status (Retry a) w) else w) = trace w @ retry_events a"
  "ollamaURL (if Suc 0 < a then sleep 10 (set_status (Retry a) w) else w) = ollamaURL w"
  "ollamaEnabled (if Suc 0 < a then sleep 10 (set_status (Retry a) w) else w) = ollamaEnabled w"
  "ollamaModel (if Suc 0 < a then sleep 10 (set_status (Retry a) w) else w) = ollamaModel w"
  "modelReady (if Suc 0 < a then sleep 10 (set_status (Retry a) w) else w) = modelReady w"
  "modelNeverReady (if Suc 0 < a then sleep 10 (set_status (Retry a) w) else w) =
     modelNeverReady w"
  "ws_writes (if Suc 0 < a then sleep 10 (set_status (Retry a) w) else w) = ws_writes w"
  "rand_calls (if Suc 0 < a then sleep 10 (set_status (Retry a) w) else w) = rand_calls w"
  by (simp_all add: retry_events_def)

lemma attempt_body_run:
  assumes "attempt_body env N a w = (ok, w')"
  shows "\<exists>evs. trace w' = trace w @ retry_events a
                   @ [SetStatus CheckingModels, HttpGet (ollamaURL w @ ''/api/tags'')] @ evs
     \<and> ollamaURL w' = ollamaURL w \<and> ollamaEnabled w' = ollamaEnabled w
     \<and> modelNeverReady w' = modelNeverReady w
     \<and> ws_writes w' = ws_writes w \<and> rand_calls w' = rand_calls w
     \<and> ((\<not> ok \<and> evs = [SetStatus (modelStatus w')] \<and> is_fetch_error (modelStatus w')
          \<and> ollamaModel w' = ollamaModel w \<and> modelReady w' = modelReady w)
        \<or> (\<exists>pevs. \<not> ok
              \<and> evs = [SetStatus ModelFound, SetModel (ollamaModel w'),
                        SetStatus TestingGeneration] @ pevs
              \<and> list_all probe_event pevs \<and> statuses pevs = [modelStatus w']
              \<and> is_probe_error (modelStatus w') \<and> modelReady w' = modelReady w)
        \<or> (\<exists>pevs. ok
              \<and> evs = [SetStatus ModelFound, SetModel (ollamaModel w'),
                        SetStatus TestingGeneration] @ pevs
                       @ [SetStatus Ready, StoreReady True]
              \<and> list_all probe_event pevs \<and> statuses pevs = []
              \<and> modelStatus w' = Ready \<and> modelReady w'))"
proof -
  let ?w1 = "if 1 < a then sleep 10 (set_status (Retry a) w) else w"
  obtain r w2 where g: "getAvailableModel env ?w1 = (r, w2)"
    by (cases "getAvailableModel env ?w1")
  note g_run = getAvailableModel_run [OF g]
  show ?thesis
  proof (cases r)
    case (Inl e)
    with assms g have "\<not> ok" "w' = w2" by (simp_all add: attempt_body_def)
    with g_run Inl show ?thesis
      by (intro exI [of _ "[SetStatus (modelStatus w2)]"]) simp
  next
    case (Inr model)
    let ?w3 = "set_model model w2"
    obtain r' w4 where t: "testModelGenerationN env N model ?w3 = (r', w4)"
      by (cases "testModelGenerationN env N model ?w3")
    from testModelGenerationN_run [OF t] obtain pevs where
      tr: "trace w4 = trace ?w3 @ SetStatus TestingGeneration # pevs"
      and pe: "list_all probe_event pevs"
      and st: "statuses pevs = (case r' of None \<Rightarrow> [] | Some e \<Rightarrow> [modelStatus w4])"
      and ok_st: "r' = None \<longrightarrow> modelStatus w4 = TestingGeneration"
      and err_st: "r' \<noteq> None \<longrightarrow> is_probe_error (modelStatus w4)"
      and fr: "ollamaURL w4 = ollamaURL ?w3" "ollamaEnabled w4 = ollamaEnabled ?w3"
        "ollamaModel w4 = ollamaModel ?w3" "modelReady w4 = modelReady ?w3"
        "modelNeverReady w4 = modelNeverReady ?w3"
        "ws_writes w4 = ws_writes ?w3" "rand_calls w4 = rand_calls ?w3"
      by blast
    from g_run Inr have found: "modelStatus w2 = ModelFound" by simp
    show ?thesis
    proof (cases r')
      case None
      with assms g Inr t have res: "ok" "w' = store_ready True (set_status Ready w4)"
        by (simp_all add: attempt_body_def Let_def)
      have "statuses pevs = []" using st None by simp
      with res tr pe fr g_run found show ?thesis
        by (intro exI [of _ "[SetStatus ModelFound, SetModel model,
              SetStatus TestingGeneration] @ pevs @ [SetStatus Ready, StoreReady True]"])
           simp
    next
      case (Some e)
      with assms g Inr t have res: "\<not> ok" "w' = w4"
        by (simp_all add: attempt_body_def Let_def)
      have "statuses pevs = [modelStatus w4]" "is_probe_error (modelStatus w4)"
        using st err_st Some by simp_all
      with res tr pe fr g_run found show ?thesis
        by (intro exI [of _ "[SetStatus ModelFound, SetModel model,
              SetStatus TestingGeneration] @ pevs"])
           simp
    qed
  qed
qed

lemma attempt_body_flags:
  assumes "attempt_body env N a w = (ok, w')"
  shows "modelNeverReady w' = modelNeverReady w \<and> ollamaEnabled w' = ollamaEnabled w
     \<and> ollamaURL w' = ollamaURL w \<and> ws_writes w' = ws_writes w \<and> rand_calls w' = rand_calls w
     \<and> (if ok then modelStatus w' = Ready \<and> modelReady w'
         else modelReady w' = modelReady w
              \<and> (is_fetch_error (modelStatus w') \<or> is_probe_error (modelStatus w')))"
  using attempt_body_run [OF assms] by auto

subsection \<open>What every pass preserves\<close>

lemma attempt_body_invariant:
  assumes pr: "\<And>w m. P w \<Longrightarrow> P (probe env m w)"
    and sl: "\<And>w d. P w \<Longrightarrow> P (sleep d w)"
    and st: "\<And>w s. P w \<Longrightarrow> P (set_status s w)"
    and get: "\<And>w url. P w \<Longrightarrow> P (snd (httpGet env url w))"
    and sm: "\<And>w m. P w \<Longrightarrow> P (set_model m w)"
    and sr: "\<And>w b. P w \<Longrightarrow> P (store_ready b w)"
    and "P w"
  shows "P (snd (attempt_body env N a w))"
proof -
  let ?w1 = "if 1 < a then sleep 10 (set_status (Retry a) w) else w"
  have 1: "P ?w1" using assms(7) by (simp add: sl st)
  obtain r w2 where g: "getAvailableModel env ?w1 = (r, w2)"
    by (cases "getAvailableModel env ?w1")
  from getAvailableModel_invariant [where P = P, OF st get 1] g have 2: "P w2"
    by simp
  show ?thesis
  proof (cases r)
    case (Inl e)
    with g 2 show ?thesis by (simp add: attempt_body_def)
  next
    case (Inr model)
    let ?w3 = "set_model model w2"
    obtain r' w4 where t: "testModelGenerationN env N model ?w3 = (r', w4)"
      by (cases "testModelGenerationN env N model ?w3")
    have "P ?w3" using 2 by (rule sm)
    from testModelGenerationN_invariant [where P = P and m = model and N = N, OF pr sl st this] t
    have 4: "P w4" by simp
    then have "P (store_ready True (set_status Ready w4))" by (intro sr st)
    with g Inr t 4 show ?thesis
      by (cases r') (simp_all add: attempt_body_def Let_def)
  qed
qed

lemma attempt_body_accounted:
  assumes "accounted env w"
  shows "accounted env (snd (attempt_body env N a w))"
proof -
  let ?w1 = "if 1 < a then sleep 10 (set_status (Retry a) w) else w"
  have 1: "accounted env ?w1" using assms by (simp add: accounted_prims)
  obtain r w2 where g: "getAvailableModel env ?w1 = (r, w2)"
    by (cases "getAvailableModel env ?w1")
  from getAvailableModel_run [OF g] have
    tr: "trace w2 = trace ?w1 @ [SetStatus CheckingModels, HttpGet (ollamaURL ?w1 @ ''/api/tags''),
                               SetStatus (modelStatus w2)]"
    and hc: "http_calls w2 = Suc (http_calls ?w1)"
    and nm: "fetched_name env (http_reply env (http_calls ?w1)) =
         (case r of Inl e \<Rightarrow> None | Inr name \<Rightarrow> Some name)"
    by blast+
  show ?thesis
  proof (cases r)
    case (Inl e)
    with 1 nm have "accounted env w2"
      by (simp add: accounted_def tr hc fetched_names_append)
    with g Inl show ?thesis by (simp add: attempt_body_def)
  next
    case (Inr model)
    let ?w3 = "set_model model w2"
    obtain r' w4 where t: "testModelGenerationN env N model ?w3 = (r', w4)"
      by (cases "testModelGenerationN env N model ?w3")
    from 1 nm Inr have "accounted env ?w3"
      by (simp add: accounted_def tr hc fetched_names_append)
    from testModelGenerationN_invariant
           [where P = "accounted env" and env = env and m = model and N = N, OF _ _ _ this] t
    have 4: "accounted env w4" by (simp add: accounted_prims)
    then have "accounted env (store_ready True (set_status Ready w4))"
      by (intro accounted_prims)
    with g Inr t 4 show ?thesis
      by (cases r') (simp_all add: attempt_body_def Let_def)
  qed
qed

lemma checkLoop_invariant:
  assumes body: "\<And>a w. P w \<Longrightarrow> P (snd (attempt_body env N a w))"
    and st: "\<And>w. P w \<Longrightarrow> P (set_status Failed w)"
  shows "Suc M - a = n \<Longrightarrow> P w \<Longrightarrow> P (checkLoop env M N a w)"
proof (induction n arbitrary: a w)
  case 0
  then have "\<not> a \<le> M" by simp
  then have "checkLoop env M N a w = set_status Failed w"
    by (subst checkLoop_unfold) simp
  with "0.prems"(2) show ?case by (simp add: st)
next
  case (Suc n)
  then have le: "a \<le> M" by simp
  obtain ok w1 where b: "attempt_body env N a w = (ok, w1)"
    by (cases "attempt_body env N a w")
  from body [OF Suc.prems(2), of a] b have 1: "P w1" by simp
  show ?case
  proof (cases ok)
    case True
    with le b have "checkLoop env M N a w = w1"
      by (subst checkLoop_unfold) simp
    with 1 show ?thesis by simp
  next
    case False
    with le b have eq: "checkLoop env M N a w = checkLoop env M N (Suc a) w1"
      by (subst checkLoop_unfold) simp
    have "Suc M - Suc a = n" using Suc.prems(1) by simp
    from Suc.IH [OF this 1] show ?thesis unfolding eq .
  qed
qed

subsection \<open>The flags at the end\<close>

lemma checkLoop_flags:
  "Suc M - a = n \<Longrightarrow>
   modelNeverReady (checkLoop env M N a w) = modelNeverReady w
   \<and> ollamaEnabled (checkLoop env M N a w) = ollamaEnabled w
   \<and> ollamaURL (checkLoop env M N a w) = ollamaURL w
   \<and> ws_writes (checkLoop env M N a w) = ws_writes w
   \<and> rand_calls (checkLoop env M N a w) = rand_calls w
   \<and> ((modelStatus (checkLoop env M N a w) = Ready \<and> modelReady (checkLoop env M N a w))
       \<or> (modelStatus (checkLoop env M N a w) = Failed
           \<and> modelReady (checkLoop env M N a w) = modelReady w))"
proof (induction n arbitrary: a w)
  case 0
  then have "\<not> a \<le> M" by simp
  then show ?case by (subst (1 2 3 4 5 6 7 8 9) checkLoop_unfold) simp
next
  case (Suc n)
  then have le: "a \<le> M" by simp
  obtain ok w1 where b: "attempt_body env N a w = (ok, w1)"
    by (cases "attempt_body env N a w")
  note fl = attempt_body_flags [OF b]
  show ?case
  proof (cases ok)
    case True
    with le b have "checkLoop env M N a w = w1"
      by (subst checkLoop_unfold) simp
    with fl True show ?thesis by simp
  next
    case False
    with le b have eq: "checkLoop env M N a w = checkLoop env M N (Suc a) w1"
      by (subst checkLoop_unfold) simp
    have "Suc M - Suc a = n" using Suc.prems by simp
    from Suc.IH [OF this, of w1] fl False show ?thesis
      unfolding eq by auto
  qed
qed

lemma checkModelReady_disabled:
  "\<not> enabled \<Longrightarrow>
     checkModelReady env (init_world url enabled) =
       store_never_ready True (set_status Disabled (init_world url enabled))"
  by (simp add: checkModelReady_def checkModelReadyN_def)

lemma checkModelReady_enabled:
  "enabled \<Longrightarrow>
     checkModelReady env (init_world url enabled) =
       checkLoop env 100 100 1 (set_status Starting (init_world url enabled))"
  by (simp add: checkModelReady_def checkModelReadyN_def)

text \<open>
  Every run of \<^verbatim>\<open>checkModelReady\<close> from the initial world: the recorded states are those
  its effects lead through, the request counter and the assigned names are accounted for,
  and an enabled run never stores to \<^verbatim>\<open>modelNeverReady\<close>.
\<close>

lemma checkModelReady_coherent:
  "coherent (view_of (init_world url enabled)) (checkModelReady env (init_world url enabled))"
proof (cases enabled)
  case False
  then show ?thesis
    by (simp add: checkModelReady_disabled coherent_prims coherent_init)
next
  case True
  let ?v0 = "view_of (init_world url enabled)"
  have body: "coherent ?v0 (snd (attempt_body env 100 a w))" if "coherent ?v0 w" for a w
    by (rule attempt_body_invariant [where P = "coherent ?v0", OF _ _ _ _ _ _ that])
       (simp_all add: coherent_prims)
  have start: "coherent ?v0 (set_status Starting (init_world url enabled))"
    by (intro coherent_prims coherent_init)
  show ?thesis
    unfolding checkModelReady_enabled [OF True]
    by (rule checkLoop_invariant [where P = "coherent ?v0", OF body _ refl start])
       (simp_all add: coherent_prims)
qed

lemma checkModelReady_accounted:
  "accounted env (checkModelReady env (init_world url enabled))"
proof (cases enabled)
  case False
  then show ?thesis
    by (simp add: checkModelReady_disabled accounted_prims accounted_init)
next
  case True
  show ?thesis
    unfolding checkModelReady_enabled [OF True]
    by (rule checkLoop_invariant [OF _ _ refl])
       (simp_all add: attempt_body_accounted accounted_prims accounted_init)
qed

lemma checkModelReady_quiet:
  assumes "enabled"
  shows "never_stores (trace (checkModelReady env (init_world url enabled))) = []"
  unfolding checkModelReady_enabled [OF assms]
  by (rule checkLoop_invariant [where P = "\<lambda>w. never_stores (trace w) = []", OF _ _ refl];
      (rule attempt_body_invariant [where P = "\<lambda>w. never_stores (trace w) = []"])?; simp)

lemma checkModelReady_flags:
  fixes env url enabled
  defines "W \<equiv> checkModelReady env (init_world url enabled)"
  shows "(modelNeverReady W \<longleftrightarrow> modelStatus W = Disabled)
     \<and> (modelStatus W = Disabled \<longleftrightarrow> \<not> enabled)
     \<and> (modelReady W \<longleftrightarrow> modelStatus W = Ready)
     \<and> (modelStatus W = Ready \<or> modelStatus W = Failed \<or> modelStatus W = Disabled)"
proof (cases enabled)
  case False
  then show ?thesis unfolding W_def by (simp add: checkModelReady_disabled)
next
  case True
  note checkLoop_flags [OF refl, where M = 100 and a = 1 and env = env and N = 100
         and w = "set_status Starting (init_world url enabled)"]
  with True show ?thesis unfolding W_def checkModelReady_enabled [OF True] by auto
qed

text \<open>What holds once \<^verbatim>\<open>checkModelReady\<close> has returned.\<close>

lemma checkModelReady_settled:
  fixes env env' :: env and url :: string and enabled :: bool and msgs :: "string list"
  defines "W \<equiv> checkModelReady env (init_world url enabled)"
  shows "(modelNeverReady W \<longleftrightarrow> modelStatus W = Disabled)
     \<and> (modelStatus W = Disabled \<longleftrightarrow> \<not> enabled)
     \<and> (modelReady W \<longleftrightarrow> modelStatus W = Ready)
     \<and> (modelStatus W = Ready \<or> modelStatus W = Failed \<or> modelStatus W = Disabled)
     \<and> (modelStatus W = Failed \<longrightarrow>
          \<not> modelNeverReady W
          \<and> ws_sent (trace (readLoop env' msgs W)) =
              ws_sent (trace W) @
                map (\<lambda>i. waitingMessages ! (rand_src env' (rand_calls W + i) mod 10))
                  [0..<length msgs]
          \<and> posts (trace (readLoop env' msgs W)) = posts (trace W))
     \<and> (modelStatus W = Disabled \<longrightarrow>
          modelNeverReady W
          \<and> ws_sent (trace (readLoop env' msgs W)) =
              ws_sent (trace W) @
                map (\<lambda>i. noAIMessages ! (rand_src env' (rand_calls W + i) mod 10))
                  [0..<length msgs]
          \<and> posts (trace (readLoop env' msgs W)) = posts (trace W))"
proof -
  note fl = checkModelReady_flags [of env url enabled, folded W_def]
  have failed: "\<not> modelNeverReady W \<and> \<not> modelReady W" if "modelStatus W = Failed"
    using fl that by auto
  have disabled: "modelNeverReady W \<and> \<not> modelReady W" if "modelStatus W = Disabled"
    using fl that by auto
  show ?thesis
    using fl failed disabled readLoop_not_ready [of W env' msgs]
    by (auto simp: canned_def)
qed

text \<open>The disabled run, state by state.\<close>

lemma disabled_views:
  "\<not> enabled \<Longrightarrow>
     trace (checkModelReady env (init_world url enabled)) =
       [SetStatus Disabled, StoreNeverReady True]
     \<and> views (checkModelReady env (init_world url enabled)) =
       [\<lparr>v_status = Disabled, v_ready = False, v_never = False, v_model = []\<rparr>,
        \<lparr>v_status = Disabled, v_ready = False, v_never = True, v_model = []\<rparr>]"
  by (simp add: checkModelReady_def checkModelReadyN_def store_never_ready_def set_status_def
        emit_def view_of_def init_world_def)

text \<open>A message handled while the connection reads a state that is not ready.\<close>

lemma handleMessage_seeing:
  assumes "\<not> v_ready v"
  shows "ws_sent (trace (handleMessage env msg (seeing v c))) =
           ws_sent (trace c) @
             [(if v_never v then noAIMessages else waitingMessages)
                ! (rand_src env (rand_calls c) mod 10)]
       \<and> posts (trace (handleMessage env msg (seeing v c))) = posts (trace c)"
proof -
  have nr: "\<not> modelReady (seeing v c)" using assms by simp
  show ?thesis
    by (simp add: handleMessage_not_ready(1) [OF nr] canned_def)
qed

text \<open>
  C2 (as amended). The permanently-unavailable flag is true only while the status is
  \<^verbatim>\<open>disabled\<close>: in every state that a run of \<^verbatim>\<open>checkModelReady\<close> passes through, from the
  initial one to the one it returns in, a set flag means status \<^verbatim>\<open>disabled\<close>. A run with
  the service enabled never stores to the flag, so that it is unset in every state of the
  run, the retries and the terminal \<^verbatim>\<open>failed\<close> included, and a message handled in any
  state of such a run that is not ready is answered from the waiting table. A run with the
  service disabled sets the status to \<^verbatim>\<open>disabled\<close> and then stores the flag, passing
  through one state with status \<^verbatim>\<open>disabled\<close> and the flag still unset. Once
  \<^verbatim>\<open>checkModelReady\<close> has returned, the flag is set if and only if the status is
  \<^verbatim>\<open>disabled\<close>, which is the case exactly when the service was disabled by configuration;
  in \<^verbatim>\<open>failed\<close> every later inbound message of a connection is answered with one message of
  the waiting table, in \<^verbatim>\<open>disabled\<close> with one message of the unavailable table, and in
  both cases no generation call is made. The states passed through are the recorded ones,
  one after each effect, and they are those that the effects of the trace lead through.
\<close>

theorem never_ready_only_when_disabled:
  fixes env env' :: env and url :: string and enabled :: bool and msgs :: "string list"
    and msg :: string and c :: world
  defines "W \<equiv> checkModelReady env (init_world url enabled)"
    and "v0 \<equiv> view_of (init_world url enabled)"
  shows "(modelNeverReady W \<longleftrightarrow> modelStatus W = Disabled)
     \<and> (modelStatus W = Disabled \<longleftrightarrow> \<not> enabled)
     \<and> (modelReady W \<longleftrightarrow> modelStatus W = Ready)
     \<and> (modelStatus W = Ready \<or> modelStatus W = Failed \<or> modelStatus W = Disabled)
     \<and> (modelStatus W = Failed \<longrightarrow>
          \<not> modelNeverReady W
          \<and> ws_sent (trace (readLoop env' msgs W)) =
              ws_sent (trace W) @
                map (\<lambda>i. waitingMessages ! (rand_src env' (rand_calls W + i) mod 10))
                  [0..<length msgs]
          \<and> posts (trace (readLoop env' msgs W)) = posts (trace W))
     \<and> (modelStatus W = Disabled \<longrightarrow>
          modelNeverReady W
          \<and> ws_sent (trace (readLoop env' msgs W)) =
              ws_sent (trace W) @
                map (\<lambda>i. noAIMessages ! (rand_src env' (rand_calls W + i) mod 10))
                  [0..<length msgs]
          \<and> posts (trace (readLoop env' msgs W)) = posts (trace W))
     \<and> views W = replay v0 (trace W)
     \<and> view_of W = last (v0 # views W)
     \<and> (\<forall>v \<in> set (v0 # views W). v_never v \<longrightarrow> v_status v = Disabled)
     \<and> (enabled \<longrightarrow>
          never_stores (trace W) = []
          \<and> (\<forall>v \<in> set (v0 # views W).
                \<not> v_never v
                \<and> (\<not> v_ready v \<longrightarrow>
                     ws_sent (trace (handleMessage env' msg (seeing v c))) =
                       ws_sent (trace c) @
                         [waitingMessages ! (rand_src env' (rand_calls c) mod 10)])))
     \<and> (\<not> enabled \<longrightarrow>
          trace W = [SetStatus Disabled, StoreNeverReady True]
          \<and> map (\<lambda>v. (v_status v, v_never v)) (v0 # views W) =
              [(Initializing, False), (Disabled, False), (Disabled, True)])
     \<and> (\<forall>v \<in> set (v0 # views W).
          \<not> v_ready v \<longrightarrow>
            ws_sent (trace (handleMessage env' msg (seeing v c))) =
              ws_sent (trace c) @
                [(if v_never v then noAIMessages else waitingMessages)
                   ! (rand_src env' (rand_calls c) mod 10)]
            \<and> posts (trace (handleMessage env' msg (seeing v c))) = posts (trace c))"
proof -
  note settled = checkModelReady_settled [of env url enabled env' msgs, folded W_def]
  from settled have c1: "modelNeverReady W \<longleftrightarrow> modelStatus W = Disabled" by (rule conjunct1)
  note s2 = settled [THEN conjunct2]
  from s2 have c2: "modelStatus W = Disabled \<longleftrightarrow> \<not> enabled" by (rule conjunct1)
  note s3 = s2 [THEN conjunct2]
  from s3 have c3: "modelReady W \<longleftrightarrow> modelStatus W = Ready" by (rule conjunct1)
  note s4 = s3 [THEN conjunct2]
  from s4 have c4: "modelStatus W = Ready \<or> modelStatus W = Failed \<or> modelStatus W = Disabled"
    by (rule conjunct1)
  note s5 = s4 [THEN conjunct2]
  note c5 = s5 [THEN conjunct1]
  note c6 = s5 [THEN conjunct2]
  have coh: "coherent v0 W"
    unfolding W_def v0_def by (rule checkModelReady_coherent)
  then have c7: "views W = replay v0 (trace W)" and c8: "view_of W = last (v0 # views W)"
    by (simp_all add: coherent_def)
  have v0: "\<not> v_never v0" "v_status v0 = Initializing"
    by (simp_all add: v0_def view_of_def)
  have quiet: "never_stores (trace W) = [] \<and> (\<forall>v \<in> set (v0 # views W). \<not> v_never v)"
    if enabled
  proof -
    have q: "never_stores (trace W) = []"
      unfolding W_def by (rule checkModelReady_quiet [OF that])
    from replay_never [OF q, of v0] v0 show ?thesis
      by (simp add: q c7)
  qed
  have dis: "trace W = [SetStatus Disabled, StoreNeverReady True]
          \<and> map (\<lambda>v. (v_status v, v_never v)) (v0 # views W) =
              [(Initializing, False), (Disabled, False), (Disabled, True)]"
    if "\<not> enabled"
    using disabled_views [OF that, of env url] v0 by (simp add: W_def)
  have c9: "\<forall>v \<in> set (v0 # views W). v_never v \<longrightarrow> v_status v = Disabled"
  proof (cases enabled)
    case True
    from quiet [OF True] show ?thesis by blast
  next
    case False
    from disabled_views [OF False, of env url] v0 show ?thesis
      by (simp add: W_def)
  qed
  have c12: "\<forall>v \<in> set (v0 # views W).
          \<not> v_ready v \<longrightarrow>
            ws_sent (trace (handleMessage env' msg (seeing v c))) =
              ws_sent (trace c) @
                [(if v_never v then noAIMessages else waitingMessages)
                   ! (rand_src env' (rand_calls c) mod 10)]
            \<and> posts (trace (handleMessage env' msg (seeing v c))) = posts (trace c)"
    by (intro ballI impI handleMessage_seeing)
  have c10: "enabled \<longrightarrow>
          never_stores (trace W) = []
          \<and> (\<forall>v \<in> set (v0 # views W).
                \<not> v_never v
                \<and> (\<not> v_ready v \<longrightarrow>
                     ws_sent (trace (handleMessage env' msg (seeing v c))) =
                       ws_sent (trace c) @
                         [waitingMessages ! (rand_src env' (rand_calls c) mod 10)]))"
  proof (intro impI conjI ballI)
    assume en: enabled
    from quiet [OF en] show "never_stores (trace W) = []" by blast
    fix v assume v: "v \<in> set (v0 # views W)"
    with quiet [OF en] show nv: "\<not> v_never v" by blast
    assume "\<not> v_ready v"
    from handleMessage_seeing [OF this, of env' msg c] nv
    show "ws_sent (trace (handleMessage env' msg (seeing v c))) =
            ws_sent (trace c) @ [waitingMessages ! (rand_src env' (rand_calls c) mod 10)]"
      by simp
  qed
  have c11: "\<not> enabled \<longrightarrow>
          trace W = [SetStatus Disabled, StoreNeverReady True]
          \<and> map (\<lambda>v. (v_status v, v_never v)) (v0 # views W) =
              [(Initializing, False), (Disabled, False), (Disabled, True)]"
    using dis by blast
  show ?thesis
    by (intro conjI c1 c2 c3 c4 c5 c6 c7 c8 c9 c10 c11 c12)
qed

lemma checkLoop_unreachable:
  "\<forall>k. http_reply env k = TransportErr \<Longrightarrow> Suc M - a = n \<Longrightarrow>
     modelStatus (checkLoop env M N a w) = Failed"
proof (induction n arbitrary: a w)
  case 0
  then have "\<not> a \<le> M" by simp
  then show ?case by (subst checkLoop_unfold) simp
next
  case (Suc n)
  then have le: "a \<le> M" by simp
  have "fst (attempt_body env N a w) = False"
    using Suc.prems(1)
    by (simp add: attempt_body_def getAvailableModel_def httpGet_def Let_def)
  then obtain w1 where b: "attempt_body env N a w = (False, w1)"
    by (cases "attempt_body env N a w") simp
  with le have eq: "checkLoop env M N a w = checkLoop env M N (Suc a) w1"
    by (subst checkLoop_unfold) simp
  have "Suc M - Suc a = n" using Suc.prems by simp
  from Suc.IH [OF Suc.prems(1) this] show ?case unfolding eq .
qed

lemma down_env_failed:
  "modelStatus (checkModelReady down_env (init_world sample_url True)) = Failed"
  unfolding checkModelReady_enabled [OF TrueI]
  by (rule checkLoop_unreachable [OF _ refl]) (simp add: down_env_def)

lemma tables_differ: "waitingMessages ! 3 \<notin> set noAIMessages"
  by (simp add: waitingMessages_def noAIMessages_def)

theorem never_ready_only_when_disabled_witness:
  "modelStatus (checkModelReady down_env (init_world sample_url True)) = Failed
   \<and> ws_sent (trace (readLoop sample_env [''Hi'', ''Hello?'']
        (checkModelReady down_env (init_world sample_url True)))) =
      ws_sent (trace (checkModelReady down_env (init_world sample_url True)))
        @ map (\<lambda>i. waitingMessages !
                 (rand_src sample_env
                    (rand_calls (checkModelReady down_env (init_world sample_url True)) + i)
                  mod 10)) [0..<2]
   \<and> modelStatus (checkModelReady sample_env (init_world sample_url False)) = Disabled
   \<and> modelNeverReady (checkModelReady sample_env (init_world sample_url False))
   \<and> ws_sent (trace (readLoop sample_env [''Hi'', ''Hello?'']
        (checkModelReady sample_env (init_world sample_url False)))) =
      [noAIMessages ! 3, noAIMessages ! 0]
   \<and> never_stores (trace (checkModelReady down_env (init_world sample_url True))) = []
   \<and> filter v_never (views (checkModelReady down_env (init_world sample_url True))) = []
   \<and> ws_sent (trace (handleMessage sample_env ''Hi''
        (seeing (view_of (init_world sample_url True)) (init_world sample_url True)))) =
      [waitingMessages ! 3]
   \<and> map (\<lambda>v. (v_status v, v_never v))
        (views (checkModelReady sample_env (init_world sample_url False))) =
      [(Disabled, False), (Disabled, True)]
   \<and> ws_sent (trace (handleMessage sample_env ''Hi''
        (seeing \<lparr>v_status = Disabled, v_ready = False, v_never = True, v_model = []\<rparr>
           (init_world sample_url False)))) =
      [noAIMessages ! 3]"
proof -
  let ?Wd = "checkModelReady down_env (init_world sample_url True)"
  let ?Ws = "checkModelReady sample_env (init_world sample_url False)"
  note a = never_ready_only_when_disabled
             [where env = down_env and url = sample_url and enabled = True
                and env' = sample_env and msgs = "[''Hi'', ''Hello?'']" and msg = "''Hi''"
                and c = "init_world sample_url True"]
  note b = never_ready_only_when_disabled
             [where env = sample_env and url = sample_url and enabled = False
                and env' = sample_env and msgs = "[''Hi'', ''Hello?'']" and msg = "''Hi''"
                and c = "init_world sample_url False"]
  have d: "?Ws = store_never_ready True (set_status Disabled (init_world sample_url False))"
    by (simp add: checkModelReady_disabled)
  have r: "rand_src sample_env k = 7 * k + 13" for k
    by (simp add: sample_env_def)
  note a5 = a [THEN conjunct2, THEN conjunct2, THEN conjunct2, THEN conjunct2, THEN conjunct1]
  from a5 down_env_failed have 1:
    "ws_sent (trace (readLoop sample_env [''Hi'', ''Hello?''] ?Wd)) =
      ws_sent (trace ?Wd)
        @ map (\<lambda>i. waitingMessages ! (rand_src sample_env (rand_calls ?Wd + i) mod 10))
            [0..<length [''Hi'', ''Hello?'']]"
    by blast
  note b2 = b [THEN conjunct2, THEN conjunct1]
  from b2 have 2: "modelStatus ?Ws = Disabled"
    by simp
  note b6 = b [THEN conjunct2, THEN conjunct2, THEN conjunct2, THEN conjunct2, THEN conjunct2,
               THEN conjunct1]
  from b6 2 have 3: "modelNeverReady ?Ws"
    and 4: "ws_sent (trace (readLoop sample_env [''Hi'', ''Hello?''] ?Ws)) =
      ws_sent (trace ?Ws) @
        map (\<lambda>i. noAIMessages ! (rand_src sample_env (rand_calls ?Ws + i) mod 10))
          [0..<length [''Hi'', ''Hello?'']]"
    by blast+
  have 5: "ws_sent (trace (readLoop sample_env [''Hi'', ''Hello?''] ?Ws)) =
      [noAIMessages ! 3, noAIMessages ! 0]"
    unfolding 4 by (simp add: d r upt_rec)
  note tail = a [THEN conjunct2, THEN conjunct2, THEN conjunct2, THEN conjunct2, THEN conjunct2,
                 THEN conjunct2, THEN conjunct2, THEN conjunct2, THEN conjunct2]
  have a10: "never_stores (trace ?Wd) = []
     \<and> (\<forall>v \<in> set (view_of (init_world sample_url True) # views ?Wd).
           \<not> v_never v
           \<and> (\<not> v_ready v \<longrightarrow>
                ws_sent (trace (handleMessage sample_env ''Hi''
                                 (seeing v (init_world sample_url True)))) =
                  ws_sent (trace (init_world sample_url True)) @
                    [waitingMessages !
                       (rand_src sample_env (rand_calls (init_world sample_url True)) mod 10)]))"
    by (rule mp [OF tail [THEN conjunct1]]) simp
  from a10 have 6: "never_stores (trace ?Wd) = []" by (rule conjunct1)
  from a10 have 7: "filter v_never (views ?Wd) = []"
    by (simp add: filter_empty_conv)
  have "\<not> v_ready (view_of (init_world sample_url True))"
    by (simp add: view_of_def)
  with a10 have 8: "ws_sent (trace (handleMessage sample_env ''Hi''
        (seeing (view_of (init_world sample_url True)) (init_world sample_url True)))) =
      [waitingMessages ! 3]"
    by (simp add: r)
  note tailb = b [THEN conjunct2, THEN conjunct2, THEN conjunct2, THEN conjunct2, THEN conjunct2,
                  THEN conjunct2, THEN conjunct2, THEN conjunct2, THEN conjunct2, THEN conjunct2]
  have b11: "trace ?Ws = [SetStatus Disabled, StoreNeverReady True]
     \<and> map (\<lambda>v. (v_status v, v_never v)) (view_of (init_world sample_url False) # views ?Ws) =
         [(Initializing, False), (Disabled, False), (Disabled, True)]"
    by (rule mp [OF tailb [THEN conjunct1]]) simp
  then have 9: "map (\<lambda>v. (v_status v, v_never v)) (views ?Ws) =
      [(Disabled, False), (Disabled, True)]"
    by simp
  have mem: "\<lparr>v_status = Disabled, v_ready = False, v_never = True, v_model = []\<rparr>
      \<in> set (view_of (init_world sample_url False) # views ?Ws)"
    by (simp add: disabled_views)
  from tailb [THEN conjunct2, rule_format, OF mem]
  have 10: "ws_sent (trace (handleMessage sample_env ''Hi''
        (seeing \<lparr>v_status = Disabled, v_ready = False, v_never = True, v_model = []\<rparr>
           (init_world sample_url False)))) =
      [noAIMessages ! 3]"
    by (simp add: r)
  from 1 have w1: "ws_sent (trace (readLoop sample_env [''Hi'', ''Hello?''] ?Wd)) =
      ws_sent (trace ?Wd)
        @ map (\<lambda>i. waitingMessages ! (rand_src sample_env (rand_calls ?Wd + i) mod 10))
            [0..<2]"
    by (simp add: upt_rec)
  show ?thesis
    by (intro conjI down_env_failed w1 2 3 5 6 7 8 9 10)
qed

text \<open>
  C2 as stated does not hold: with an inference service that is never reachable the status
  settles in \<^verbatim>\<open>failed\<close>, the permanently-unavailable flag is unset, and the next inbound
  message is answered from the waiting table, with a message that is not in the unavailable
  table.
\<close>

theorem failed_sends_waiting_messages:
  "modelStatus (checkModelReady down_env (init_world sample_url True)) = Failed
   \<and> \<not> modelNeverReady (checkModelReady down_env (init_world sample_url True))
   \<and> ws_sent (trace (readLoop down_env [''Hi'']
        (checkModelReady down_env (init_world sample_url True)))) =
      ws_sent (trace (checkModelReady down_env (init_world sample_url True)))
        @ [waitingMessages ! 3]
   \<and> waitingMessages ! 3 \<notin> set noAIMessages"
proof -
  let ?W = "checkModelReady down_env (init_world sample_url True)"
  note fl = checkModelReady_flags [of down_env sample_url True]
  from checkLoop_flags [OF refl, where M = 100 and a = 1 and env = down_env and N = 100
         and w = "set_status Starting (init_world sample_url True)"]
  have rc: "rand_calls ?W = 0"
    unfolding checkModelReady_enabled [OF TrueI] by simp
  have nr: "\<not> modelReady ?W" "\<not> modelNeverReady ?W"
    using fl down_env_failed by auto
  from readLoop_not_ready [OF nr(1), of down_env "[''Hi'']"] nr(2) rc
  have "ws_sent (trace (readLoop down_env [''Hi''] ?W)) =
          ws_sent (trace ?W) @ [waitingMessages ! 3]"
    by (simp add: canned_def down_env_def sample_env_def)
  then show ?thesis using down_env_failed nr(2) tables_differ by simp
qed

subsection \<open>The order of the status tags\<close>

lemma status_steps [simp]:
  "status_step Initializing Starting"
  "status_step Initializing Disabled"
  "status_step Starting b \<longleftrightarrow> b = CheckingModels"
  "status_step (Retry n) b \<longleftrightarrow> b = CheckingModels"
  "status_step CheckingModels b \<longleftrightarrow> is_fetch_error b \<or> b = ModelFound"
  "status_step ModelFound b \<longleftrightarrow> b = TestingGeneration"
  "status_step TestingGeneration b \<longleftrightarrow> is_probe_error b \<or> b = Ready"
  by (simp_all add: status_step_def)

lemma status_step_error:
  "is_fetch_error s \<or> is_probe_error s \<Longrightarrow> status_step s (Retry n) \<and> status_step s Failed"
  by (cases s) (simp_all add: status_step_def)

lemma error_not_terminal:
  "is_fetch_error s \<or> is_probe_error s \<Longrightarrow>
     \<not> terminal s \<and> s \<noteq> Starting \<and> s \<noteq> Initializing \<and> s \<noteq> ModelFound"
  by (cases s) simp_all

lemma statuses_retry_events [simp]:
  "statuses (retry_events a) = (if 1 < a then [Retry a] else [])"
  by (simp add: retry_events_def)

lemma attempt_body_statuses:
  assumes "attempt_body env N a w = (ok, w')" and "loop_entry a (modelStatus w)"
  shows "\<exists>ss. statuses (trace w') = statuses (trace w) @ ss \<and> ss \<noteq> []
     \<and> last ss = modelStatus w'
     \<and> successively status_step (modelStatus w # ss)
     \<and> (\<forall>s \<in> set (butlast ss). \<not> terminal s)
     \<and> Starting \<notin> set ss \<and> Initializing \<notin> set ss"
proof -
  from attempt_body_run [OF assms(1)] obtain evs where
    tr: "trace w' = trace w @ retry_events a
                   @ [SetStatus CheckingModels, HttpGet (ollamaURL w @ ''/api/tags'')] @ evs"
    and shape: "(\<not> ok \<and> evs = [SetStatus (modelStatus w')] \<and> is_fetch_error (modelStatus w'))
        \<or> (\<exists>pevs. \<not> ok
              \<and> evs = [SetStatus ModelFound, SetModel (ollamaModel w'),
                        SetStatus TestingGeneration] @ pevs
              \<and> statuses pevs = [modelStatus w']
              \<and> is_probe_error (modelStatus w'))
        \<or> (\<exists>pevs. ok
              \<and> evs = [SetStatus ModelFound, SetModel (ollamaModel w'),
                        SetStatus TestingGeneration] @ pevs
                       @ [SetStatus Ready, StoreReady True]
              \<and> statuses pevs = []
              \<and> modelStatus w' = Ready)"
    by blast
  let ?ss = "statuses (retry_events a) @ [CheckingModels] @ statuses evs"
  have st: "statuses (trace w') = statuses (trace w) @ ?ss"
    by (simp add: tr)
  have entry: "status_step (modelStatus w) (if 1 < a then Retry a else CheckingModels)"
    using assms(2) by (auto simp: loop_entry_def status_step_error split: if_splits)
  from shape consider
      (fetch) "statuses evs = [modelStatus w']" "is_fetch_error (modelStatus w')"
    | (probe) "statuses evs = [ModelFound, TestingGeneration, modelStatus w']"
        "is_probe_error (modelStatus w')"
    | (ready) "statuses evs = [ModelFound, TestingGeneration, Ready]" "modelStatus w' = Ready"
    by auto
  then have "?ss \<noteq> [] \<and> last ?ss = modelStatus w'
     \<and> successively status_step (modelStatus w # ?ss)
     \<and> (\<forall>s \<in> set (butlast ?ss). \<not> terminal s)
     \<and> Starting \<notin> set ?ss \<and> Initializing \<notin> set ?ss"
  proof cases
    case fetch
    with entry error_not_terminal [of "modelStatus w'"] show ?thesis by auto
  next
    case probe
    with entry error_not_terminal [of "modelStatus w'"] show ?thesis by auto
  next
    case ready
    with entry show ?thesis by auto
  qed
  with st show ?thesis by blast
qed

lemma run_append:
  assumes "ss1 \<noteq> []" and "successively R (s0 # ss1)"
    and "ss2 \<noteq> []" and "successively R (last ss1 # ss2)"
  shows "successively R (s0 # ss1 @ ss2)"
proof -
  from assms(3,4) have "R (last ss1) (hd ss2)" "successively R ss2"
    by (simp_all add: successively_Cons)
  with assms(1,2,3) have "successively R ((s0 # ss1) @ ss2)"
    by (subst successively_append_iff) simp
  then show ?thesis by simp
qed

lemma checkLoop_statuses:
  "Suc M - a = n \<Longrightarrow> loop_entry a (modelStatus w) \<Longrightarrow> a \<le> M \<or> 1 < a \<Longrightarrow>
   \<exists>ss. statuses (trace (checkLoop env M N a w)) = statuses (trace w) @ ss \<and> ss \<noteq> []
     \<and> last ss = modelStatus (checkLoop env M N a w)
     \<and> successively status_step (modelStatus w # ss)
     \<and> terminal (last ss)
     \<and> (\<forall>s \<in> set (butlast ss). \<not> terminal s)
     \<and> Starting \<notin> set ss \<and> Initializing \<notin> set ss"
proof (induction n arbitrary: a w)
  case 0
  then have gt: "\<not> a \<le> M" by simp
  with "0.prems" have "is_fetch_error (modelStatus w) \<or> is_probe_error (modelStatus w)"
    by (auto simp: loop_entry_def split: if_splits)
  then have "status_step (modelStatus w) Failed" by (simp add: status_step_error)
  moreover have "checkLoop env M N a w = set_status Failed w"
    using gt by (subst checkLoop_unfold) simp
  ultimately show ?case
    by (intro exI [of _ "[Failed]"]) simp
next
  case (Suc n)
  then have le: "a \<le> M" by simp
  obtain ok w1 where b: "attempt_body env N a w = (ok, w1)"
    by (cases "attempt_body env N a w")
  from attempt_body_statuses [OF b Suc.prems(2)] obtain ss1 where
    s1: "statuses (trace w1) = statuses (trace w) @ ss1" "ss1 \<noteq> []"
      "last ss1 = modelStatus w1" "successively status_step (modelStatus w # ss1)"
      "\<forall>s \<in> set (butlast ss1). \<not> terminal s" "Starting \<notin> set ss1" "Initializing \<notin> set ss1"
    by blast
  note fl = attempt_body_flags [OF b]
  show ?case
  proof (cases ok)
    case True
    with le b have eq: "checkLoop env M N a w = w1"
      by (subst checkLoop_unfold) simp
    from fl True have "modelStatus w1 = Ready" by simp
    with s1 show ?thesis unfolding eq by (intro exI [of _ ss1]) simp
  next
    case False
    with le b have eq: "checkLoop env M N a w = checkLoop env M N (Suc a) w1"
      by (subst checkLoop_unfold) simp
    from fl False have err: "is_fetch_error (modelStatus w1) \<or> is_probe_error (modelStatus w1)"
      by simp
    have a1: "1 \<le> a" using Suc.prems(2) by (auto simp: loop_entry_def split: if_splits)
    have entry: "loop_entry (Suc a) (modelStatus w1)"
      using err a1 by (simp add: loop_entry_def)
    have "Suc M - Suc a = n" "Suc a \<le> M \<or> 1 < Suc a" using Suc.prems(1) a1 by simp_all
    from Suc.IH [OF this(1) entry this(2)] obtain ss2 where
      s2: "statuses (trace (checkLoop env M N (Suc a) w1)) = statuses (trace w1) @ ss2"
        "ss2 \<noteq> []" "last ss2 = modelStatus (checkLoop env M N (Suc a) w1)"
        "successively status_step (modelStatus w1 # ss2)" "terminal (last ss2)"
        "\<forall>s \<in> set (butlast ss2). \<not> terminal s" "Starting \<notin> set ss2" "Initializing \<notin> set ss2"
      by blast
    have nt1: "\<forall>s \<in> set ss1. \<not> terminal s"
    proof
      fix s assume "s \<in> set ss1"
      moreover have "set ss1 = set (butlast ss1 @ [last ss1])"
        using s1(2) by simp
      ultimately have "s \<in> set (butlast ss1) \<or> s = last ss1"
        by auto
      then show "\<not> terminal s"
        using s1(3,5) error_not_terminal [OF err] by auto
    qed
    have succ: "successively status_step (modelStatus w # ss1 @ ss2)"
      using s1(2,4) s2(2,4) s1(3) by (intro run_append) simp_all
    have bl: "butlast (ss1 @ ss2) = ss1 @ butlast ss2"
      using s2(2) by (simp add: butlast_append)
    show ?thesis
      unfolding eq
      using s1 s2 nt1 succ bl
      by (intro exI [of _ "ss1 @ ss2"]) auto
  qed
qed

text \<open>The run with the sample service: the model is found and the first probe succeeds.\<close>

lemma sample_probe_ok:
  "attempt_failure sample_env (http_reply sample_env (Suc k)) = None"
  by (simp add: attempt_failure_def sample_defs)

lemma sample_run:
  "trace (checkModelReady sample_env (init_world sample_url True)) =
     [SetStatus Starting, SetStatus CheckingModels, HttpGet (sample_url @ ''/api/tags''),
      SetStatus ModelFound, SetModel ''m1'', SetStatus TestingGeneration,
      HttpPost (sample_url @ ''/api/generate'') \<lparr>Model = ''m1'', Prompt = ''Hi'', Stream = False\<rparr>,
      SetStatus Ready, StoreReady True]"
proof -
  let ?w0 = "set_status Starting (init_world sample_url True)"
  have g: "getAvailableModel sample_env ?w0 =
      (Inr ''m1'', set_status ModelFound
         (snd (httpGet sample_env (sample_url @ ''/api/tags'') (set_status CheckingModels ?w0))))"
    by (simp add: getAvailableModel_def httpGet_def Let_def sample_env_def
          sample_tags_body_def sample_model_def)
  let ?w2 = "set_status ModelFound
         (snd (httpGet sample_env (sample_url @ ''/api/tags'') (set_status CheckingModels ?w0)))"
  let ?w3 = "set_status TestingGeneration (set_model ''m1'' ?w2)"
  have t: "testModelGenerationN sample_env 100 ''m1'' (set_model ''m1'' ?w2) =
      (None, probe sample_env ''m1'' ?w3)"
    unfolding testModelGenerationN_def
    by (rule testLoop_success) (simp_all add: sample_probe_ok)
  have "attempt_body sample_env 100 1 ?w0 =
      (True, store_ready True (set_status Ready (probe sample_env ''m1'' ?w3)))"
    by (simp add: attempt_body_def g t)
  then have "checkLoop sample_env 100 100 1 ?w0 =
      store_ready True (set_status Ready (probe sample_env ''m1'' ?w3))"
    by (subst checkLoop_unfold) simp
  then show ?thesis
    by (simp add: checkModelReady_enabled)
qed

text \<open>
  C5 (as amended). For every sequence of answers of the inference service, the successive
  values of the status tag start at \<^verbatim>\<open>initializing\<close> and follow the steps of the machine:
  when the service is disabled the only step is to \<^verbatim>\<open>disabled\<close>; otherwise the tag is first
  \<^verbatim>\<open>starting\<close>, which is not a tag of the ReadinessState enumeration, then
  \<^verbatim>\<open>checking_models\<close>, then \<^verbatim>\<open>model_found\<close> or a fetch error, then the probe and the
  retries, passing from there on only through tags of the enumeration, and it ends in
  \<^verbatim>\<open>ready\<close> or \<^verbatim>\<open>failed\<close>. The last value is the only one among \<^verbatim>\<open>ready\<close>, \<^verbatim>\<open>failed\<close> and
  \<^verbatim>\<open>disabled\<close>: once one of them is reached there is no further step.
\<close>

theorem status_history_order:
  fixes env :: env and url :: string and enabled :: bool
  defines "W \<equiv> checkModelReady env (init_world url enabled)"
  shows "successively status_step (status_history W)
     \<and> last (status_history W) = modelStatus W
     \<and> terminal (modelStatus W)
     \<and> (\<forall>s \<in> set (butlast (status_history W)). \<not> terminal s)
     \<and> (if enabled
         then \<exists>rest. status_history W = Initializing # Starting # CheckingModels # rest
                \<and> (\<forall>s \<in> set rest. in_ReadinessState s)
         else status_history W = [Initializing, Disabled])"
proof (cases enabled)
  case False
  then show ?thesis
    unfolding W_def by (simp add: checkModelReady_disabled status_history_def)
next
  case True
  let ?w0 = "set_status Starting (init_world url enabled)"
  have W: "W = checkLoop env 100 100 1 ?w0"
    unfolding W_def by (rule checkModelReady_enabled [OF True])
  have entry: "loop_entry 1 (modelStatus ?w0)" by (simp add: loop_entry_def)
  from checkLoop_statuses [OF refl entry, of 100 env 100] obtain ss where
    ss: "statuses (trace W) = statuses (trace ?w0) @ ss" "ss \<noteq> []"
      "last ss = modelStatus W" "successively status_step (modelStatus ?w0 # ss)"
      "terminal (last ss)" "\<forall>s \<in> set (butlast ss). \<not> terminal s"
      "Starting \<notin> set ss" "Initializing \<notin> set ss"
    unfolding W by auto
  have h: "status_history W = Initializing # Starting # ss"
    using ss(1) by (simp add: status_history_def)
  from ss(2,4) have hd: "hd ss = CheckingModels"
    by (cases ss) simp_all
  then obtain rest where rest: "ss = CheckingModels # rest"
    using ss(2) by (cases ss) simp_all
  have enum: "\<forall>s \<in> set rest. in_ReadinessState s"
  proof
    fix s assume "s \<in> set rest"
    with ss(7) rest have "s \<noteq> Starting" by auto
    then show "in_ReadinessState s" by (cases s) simp_all
  qed
  have bl: "butlast (Initializing # Starting # ss) = Initializing # Starting # butlast ss"
    using ss(2) by simp
  have c1: "successively status_step (status_history W)"
    using ss(4) by (simp add: h)
  have c2: "last (status_history W) = modelStatus W"
    using ss(2,3) by (simp add: h)
  have c3: "terminal (modelStatus W)"
    using ss(3,5) by simp
  have c4: "\<forall>s \<in> set (butlast (status_history W)). \<not> terminal s"
    unfolding h bl using ss(6) by simp
  have c5: "\<exists>rest. status_history W = Initializing # Starting # CheckingModels # rest
                \<and> (\<forall>s \<in> set rest. in_ReadinessState s)"
    using h rest enum by blast
  from c1 c2 c3 c4 c5 True show ?thesis by simp
qed

theorem status_history_order_witness:
  "successively status_step
     (status_history (checkModelReady sample_env (init_world sample_url True)))
   \<and> terminal (modelStatus (checkModelReady sample_env (init_world sample_url True)))
   \<and> status_history (checkModelReady sample_env (init_world sample_url True)) =
       [Initializing, Starting, CheckingModels, ModelFound, TestingGeneration, Ready]
   \<and> status_history (checkModelReady sample_env (init_world sample_url False)) =
       [Initializing, Disabled]"
  using status_history_order [of sample_env sample_url True]
    status_history_order [of sample_env sample_url False]
  by (simp add: status_history_def sample_run)

text \<open>
  C5 as stated does not hold: the second value of the status tag is \<^verbatim>\<open>starting\<close>, between
  \<^verbatim>\<open>initializing\<close> and \<^verbatim>\<open>checking_models\<close>, and it is no tag of the enumeration.
\<close>

theorem status_history_has_starting:
  "status_history (checkModelReady sample_env (init_world sample_url True)) =
     [Initializing, Starting, CheckingModels, ModelFound, TestingGeneration, Ready]
   \<and> status_history (checkModelReady sample_env (init_world sample_url True)) ! 1 = Starting
   \<and> \<not> in_ReadinessState Starting"
  by (simp add: status_history_def sample_run)

subsection \<open>Assignments to the model name\<close>

lemma writes_at_append:
  "writes_at cur (xs @ ys) = writes_at cur xs @ writes_at (last (cur # statuses xs)) ys"
proof (induction xs arbitrary: cur)
  case Nil
  then show ?case by simp
next
  case (Cons e xs)
  then show ?case by (cases e) simp_all
qed

lemma writes_at_names: "map snd (writes_at cur evs) = model_writes evs"
proof (induction evs arbitrary: cur)
  case Nil
  then show ?case by simp
next
  case (Cons e evs)
  then show ?case by (cases e) simp_all
qed

lemma probe_events_write_nothing:
  "list_all probe_event pevs \<Longrightarrow> writes_at cur pevs = []"
proof (induction pevs arbitrary: cur)
  case Nil
  then show ?case by simp
next
  case (Cons e pevs)
  then show ?case by (cases e) simp_all
qed

lemma retry_events_write_nothing [simp]: "writes_at cur (retry_events a) = []"
  by (simp add: retry_events_def)

lemma attempt_body_writes:
  assumes "attempt_body env N a w = (ok, w')"
  shows "\<exists>evs. trace w' = trace w @ evs
     \<and> last (modelStatus w # statuses evs) = modelStatus w'
     \<and> (\<forall>p \<in> set (writes_at (modelStatus w) evs). fst p = ModelFound)
     \<and> ollamaModel w' = last (ollamaModel w # model_writes evs)
     \<and> (ok \<longrightarrow> model_writes evs \<noteq> [])
     \<and> length (model_writes evs) = length (filter (\<lambda>s. s = ModelFound) (statuses evs))"
proof -
  from attempt_body_run [OF assms] obtain evs where
    tr: "trace w' = trace w @ retry_events a
                   @ [SetStatus CheckingModels, HttpGet (ollamaURL w @ ''/api/tags'')] @ evs"
    and shape: "(\<not> ok \<and> evs = [SetStatus (modelStatus w')] \<and> is_fetch_error (modelStatus w')
          \<and> ollamaModel w' = ollamaModel w)
        \<or> (\<exists>pevs. \<not> ok
              \<and> evs = [SetStatus ModelFound, SetModel (ollamaModel w'),
                        SetStatus TestingGeneration] @ pevs
              \<and> list_all probe_event pevs \<and> statuses pevs = [modelStatus w']
              \<and> is_probe_error (modelStatus w'))
        \<or> (\<exists>pevs. ok
              \<and> evs = [SetStatus ModelFound, SetModel (ollamaModel w'),
                        SetStatus TestingGeneration] @ pevs
                       @ [SetStatus Ready, StoreReady True]
              \<and> list_all probe_event pevs \<and> statuses pevs = []
              \<and> modelStatus w' = Ready)"
    by blast
  let ?evs = "retry_events a
                @ [SetStatus CheckingModels, HttpGet (ollamaURL w @ ''/api/tags'')] @ evs"
  have pre: "writes_at cur ?evs = writes_at CheckingModels evs" for cur
    by (simp add: writes_at_append)
  have names: "model_writes ?evs = model_writes evs"
    by (simp add: retry_events_def)
  have sts: "statuses ?evs = statuses (retry_events a) @ CheckingModels # statuses evs"
    by simp
  from shape consider
      (fetch) "\<not> ok" "evs = [SetStatus (modelStatus w')]" "is_fetch_error (modelStatus w')"
        "ollamaModel w' = ollamaModel w"
    | (probe) pevs where "\<not> ok"
        "evs = [SetStatus ModelFound, SetModel (ollamaModel w'),
                SetStatus TestingGeneration] @ pevs"
        "list_all probe_event pevs" "statuses pevs = [modelStatus w']"
        "is_probe_error (modelStatus w')"
    | (ready) pevs where "ok"
        "evs = [SetStatus ModelFound, SetModel (ollamaModel w'),
                SetStatus TestingGeneration] @ pevs @ [SetStatus Ready, StoreReady True]"
        "list_all probe_event pevs" "statuses pevs = []" "modelStatus w' = Ready"
    by blast
  then have "last (modelStatus w # statuses ?evs) = modelStatus w'
     \<and> (\<forall>p \<in> set (writes_at (modelStatus w) ?evs). fst p = ModelFound)
     \<and> ollamaModel w' = last (ollamaModel w # model_writes ?evs)
     \<and> (ok \<longrightarrow> model_writes ?evs \<noteq> [])
     \<and> length (model_writes ?evs) = length (filter (\<lambda>s. s = ModelFound) (statuses ?evs))"
  proof cases
    case fetch
    then show ?thesis
      unfolding pre names sts using error_not_terminal [of "modelStatus w'"] by auto
  next
    case probe
    from probe(3) have "writes_at cur pevs = []" for cur
      by (rule probe_events_write_nothing)
    moreover from this [of Initializing] have "model_writes pevs = []"
      using writes_at_names [of Initializing pevs] by simp
    ultimately show ?thesis
      unfolding pre names sts using probe error_not_terminal [of "modelStatus w'"]
      by (auto simp: writes_at_append)
  next
    case ready
    from ready(3) have "writes_at cur pevs = []" for cur
      by (rule probe_events_write_nothing)
    moreover from this [of Initializing] have "model_writes pevs = []"
      using writes_at_names [of Initializing pevs] by simp
    ultimately show ?thesis
      unfolding pre names sts using ready by (auto simp: writes_at_append)
  qed
  with tr show ?thesis by blast
qed

lemma last_last_append: "xs \<noteq> [] \<Longrightarrow> last (last xs # ys) = last (xs @ ys)"
  by (cases ys) simp_all

lemma checkLoop_writes:
  "Suc M - a = n \<Longrightarrow>
   \<exists>evs. trace (checkLoop env M N a w) = trace w @ evs
     \<and> (\<forall>p \<in> set (writes_at (modelStatus w) evs). fst p = ModelFound)
     \<and> ollamaModel (checkLoop env M N a w) = last (ollamaModel w # model_writes evs)
     \<and> (modelStatus (checkLoop env M N a w) = Ready \<longrightarrow> model_writes evs \<noteq> [])
     \<and> length (model_writes evs) = length (filter (\<lambda>s. s = ModelFound) (statuses evs))"
proof (induction n arbitrary: a w)
  case 0
  then have "\<not> a \<le> M" by simp
  then have "checkLoop env M N a w = set_status Failed w"
    by (subst checkLoop_unfold) simp
  then show ?case by (intro exI [of _ "[SetStatus Failed]"]) simp
next
  case (Suc n)
  then have le: "a \<le> M" by simp
  obtain ok w1 where b: "attempt_body env N a w = (ok, w1)"
    by (cases "attempt_body env N a w")
  from attempt_body_writes [OF b] obtain evs1 where
    e1: "trace w1 = trace w @ evs1"
      "last (modelStatus w # statuses evs1) = modelStatus w1"
      "\<forall>p \<in> set (writes_at (modelStatus w) evs1). fst p = ModelFound"
      "ollamaModel w1 = last (ollamaModel w # model_writes evs1)"
      "ok \<longrightarrow> model_writes evs1 \<noteq> []"
      "length (model_writes evs1) = length (filter (\<lambda>s. s = ModelFound) (statuses evs1))"
    by blast
  show ?case
  proof (cases ok)
    case True
    with le b have eq: "checkLoop env M N a w = w1"
      by (subst checkLoop_unfold) simp
    from e1 True show ?thesis unfolding eq by (intro exI [of _ evs1]) simp
  next
    case False
    with le b have eq: "checkLoop env M N a w = checkLoop env M N (Suc a) w1"
      by (subst checkLoop_unfold) simp
    have "Suc M - Suc a = n" using Suc.prems(1) by simp
    from Suc.IH [OF this, of w1] obtain evs2 where
      e2: "trace (checkLoop env M N (Suc a) w1) = trace w1 @ evs2"
        "\<forall>p \<in> set (writes_at (modelStatus w1) evs2). fst p = ModelFound"
        "ollamaModel (checkLoop env M N (Suc a) w1) = last (ollamaModel w1 # model_writes evs2)"
        "modelStatus (checkLoop env M N (Suc a) w1) = Ready \<longrightarrow> model_writes evs2 \<noteq> []"
        "length (model_writes evs2) = length (filter (\<lambda>s. s = ModelFound) (statuses evs2))"
      by blast
    have nm: "last (ollamaModel w1 # model_writes evs2) =
        last (ollamaModel w # model_writes (evs1 @ evs2))"
      unfolding e1(4)
      using last_last_append [of "ollamaModel w # model_writes evs1" "model_writes evs2"]
      by simp
    show ?thesis
      unfolding eq
      using e1 e2 nm
      by (intro exI [of _ "evs1 @ evs2"]) (auto simp: writes_at_append)
  qed
qed

text \<open>
  The run with the service that lists \<open>m1\<close>, fails the hundred probes of the first cycle,
  and then lists \<open>m2\<close>.
\<close>

lemma probe_rounds_requests:
  "fetched_names env k (concat (replicate n [HttpPost u r, Sleep d])) = []"
  "http_count (concat (replicate n [HttpPost u r, Sleep d])) = n"
  "model_writes (concat (replicate n [HttpPost u r, Sleep d])) = []"
  by (induction n arbitrary: k) simp_all

lemma second_run:
  "trace (checkModelReady second_env (init_world sample_url True)) =
     [SetStatus Starting, SetStatus CheckingModels, HttpGet (sample_url @ ''/api/tags''),
      SetStatus ModelFound, SetModel ''m1'', SetStatus TestingGeneration]
     @ concat (replicate 99
         [HttpPost (sample_url @ ''/api/generate'')
            \<lparr>Model = ''m1'', Prompt = ''Hi'', Stream = False\<rparr>, Sleep 2])
     @ [HttpPost (sample_url @ ''/api/generate'')
          \<lparr>Model = ''m1'', Prompt = ''Hi'', Stream = False\<rparr>,
        SetStatus ErrorGeneration,
        SetStatus (Retry 2), Sleep 10,
        SetStatus CheckingModels, HttpGet (sample_url @ ''/api/tags''),
        SetStatus ModelFound, SetModel ''m2'', SetStatus TestingGeneration,
        HttpPost (sample_url @ ''/api/generate'')
          \<lparr>Model = ''m2'', Prompt = ''Hi'', Stream = False\<rparr>,
        SetStatus Ready, StoreReady True]"
proof -
  let ?w0 = "set_status Starting (init_world sample_url True)"
  let ?w2 = "set_status ModelFound
         (snd (httpGet second_env (sample_url @ ''/api/tags'')
                (set_status CheckingModels ?w0)))"
  have "getAvailableModel second_env ?w0 =
      (Inr (Name sample_model),
       set_status ModelFound
         (snd (httpGet second_env (ollamaURL ?w0 @ ''/api/tags'')
                (set_status CheckingModels ?w0))))"
    by (rule getAvailableModel_found [where body = sample_tags_body and rest = "[]"
              and m = sample_model and ms = "\<lparr>Models = [sample_model]\<rparr>"])
       (simp_all add: second_env_def sample_env_def)
  then have g1: "getAvailableModel second_env ?w0 = (Inr ''m1'', ?w2)"
    by (simp add: sample_model_def)
  let ?w3 = "set_status TestingGeneration (set_model ''m1'' ?w2)"
  have f: "attempt_failure second_env (http_reply second_env (http_calls ?w3 + i)) =
      Some ErrorGeneration" if "i \<le> 99" for i
    using that by (simp add: attempt_failure_def second_env_def)
  have a: "(1::nat) + 99 = 100" by simp
  have b: "\<forall>i \<le> 99. attempt_failure second_env (http_reply second_env (http_calls ?w3 + i)) \<noteq> None"
  proof (intro allI impI)
    fix i :: nat assume "i \<le> 99"
    from f [OF this]
    show "attempt_failure second_env (http_reply second_env (http_calls ?w3 + i)) \<noteq> None"
      by (simp only: option.distinct not_False_eq_True)
  qed
  from testLoop_all_fail [OF a b f [OF order_refl], of "''m1''"] obtain e w4 where
    r: "testLoop second_env ''m1'' 100 1 ?w3 = (Some e, w4)"
    and tr: "trace w4 = trace ?w3 @ concat (replicate 99 [probe_request ?w3 ''m1'', Sleep 2])
                     @ [probe_request ?w3 ''m1'', SetStatus ErrorGeneration]"
    and hc: "http_calls w4 = http_calls ?w3 + Suc 99"
    by blast
  have t1: "testModelGenerationN second_env 100 ''m1'' (set_model ''m1'' ?w2) = (Some e, w4)"
    using r by (simp add: testModelGenerationN_def)
  from testModelGenerationN_run [OF t1] have url4: "ollamaURL w4 = sample_url"
    by auto
  have b1: "attempt_body second_env 100 1 ?w0 = (False, w4)"
    by (simp add: attempt_body_def g1 t1)
  have l1: "checkLoop second_env 100 100 1 ?w0 = checkLoop second_env 100 100 2 w4"
    using b1 by (subst checkLoop_unfold) (simp add: numeral_2_eq_2)
  let ?w5 = "sleep 10 (set_status (Retry 2) w4)"
  let ?w6 = "set_status ModelFound
         (snd (httpGet second_env (sample_url @ ''/api/tags'')
                (set_status CheckingModels ?w5)))"
  have hc5: "http_calls w4 = 101" using hc by simp
  have "getAvailableModel second_env ?w5 =
      (Inr (Name (sample_model\<lparr>Name := ''m2''\<rparr>)),
       set_status ModelFound
         (snd (httpGet second_env (ollamaURL ?w5 @ ''/api/tags'')
                (set_status CheckingModels ?w5))))"
    by (rule getAvailableModel_found [where body = other_tags_body and rest = "[]"
              and m = "sample_model\<lparr>Name := ''m2''\<rparr>"
              and ms = "\<lparr>Models = [sample_model\<lparr>Name := ''m2''\<rparr>]\<rparr>"])
       (simp_all add: hc5 second_env_def sample_env_def sample_tags_body_def
          other_tags_body_def)
  then have g2: "getAvailableModel second_env ?w5 = (Inr ''m2'', ?w6)"
    by (simp add: url4)
  let ?w7 = "set_status TestingGeneration (set_model ''m2'' ?w6)"
  have ok: "attempt_failure second_env (http_reply second_env (http_calls ?w7)) = None"
    by (simp add: hc5 attempt_failure_def second_env_def sample_defs)
  have t2: "testModelGenerationN second_env 100 ''m2'' (set_model ''m2'' ?w6) =
      (None, probe second_env ''m2'' ?w7)"
    unfolding testModelGenerationN_def
    by (rule testLoop_success [OF _ ok]) simp
  have b2: "attempt_body second_env 100 2 w4 =
      (True, store_ready True (set_status Ready (probe second_env ''m2'' ?w7)))"
    by (simp add: attempt_body_def g2 t2)
  have l2: "checkLoop second_env 100 100 2 w4 =
      store_ready True (set_status Ready (probe second_env ''m2'' ?w7))"
    using b2 by (subst checkLoop_unfold) simp
  have "checkModelReady second_env (init_world sample_url True) =
      store_ready True (set_status Ready (probe second_env ''m2'' ?w7))"
    unfolding checkModelReady_enabled [OF TrueI] l1 l2 ..
  then show ?thesis
    by (simp add: tr url4)
qed

text \<open>
  C9 (as amended). The model name is assigned once for each successful fetch, with the name
  that fetch found in the answer to its listing request, while the status is
  \<^verbatim>\<open>model_found\<close>, that is before the probe and so before \<^verbatim>\<open>ready\<close>, and at no other point:
  the names assigned are, in order, the names found by the listing requests of the run.
  The name a listing request finds is the name \<^verbatim>\<open>getAvailableModel\<close> returns for it.
  In every state of the run the model name is the name assigned last, or still unset when
  no fetch has succeeded yet; at the end of the readiness cycle it is the name found last,
  and when \<^verbatim>\<open>ready\<close> is reached it has been assigned. A cycle that finds \<open>m1\<close> and fails its
  probes, followed by one that finds \<open>m2\<close>, assigns \<open>m1\<close> and then \<open>m2\<close>.
\<close>

theorem model_name_written_at_model_found:
  fixes env :: env and url :: string and enabled :: bool
  defines "W \<equiv> checkModelReady env (init_world url enabled)"
  shows "(\<forall>p \<in> set (writes_at Initializing (trace W)). fst p = ModelFound)
     \<and> map snd (writes_at Initializing (trace W)) = model_writes (trace W)
     \<and> length (model_writes (trace W)) =
         length (filter (\<lambda>s. s = ModelFound) (statuses (trace W)))
     \<and> ollamaModel W = last ([] # model_writes (trace W))
     \<and> (modelStatus W = Ready \<longrightarrow> model_writes (trace W) \<noteq> [])
     \<and> model_writes (trace W) = fetched_names env 0 (trace W)
     \<and> http_calls W = http_count (trace W)
     \<and> views W = replay (view_of (init_world url enabled)) (trace W)
     \<and> map v_model (views W) = names_over [] (trace W)
     \<and> ollamaModel W = last ([] # fetched_names env 0 (trace W))
     \<and> (\<forall>w r w'. getAvailableModel env w = (r, w') \<longrightarrow>
           fetched_name env (http_reply env (http_calls w)) =
             (case r of Inl e \<Rightarrow> None | Inr name \<Rightarrow> Some name))"
proof -
  have old: "(\<forall>p \<in> set (writes_at Initializing (trace W)). fst p = ModelFound)
     \<and> map snd (writes_at Initializing (trace W)) = model_writes (trace W)
     \<and> length (model_writes (trace W)) =
         length (filter (\<lambda>s. s = ModelFound) (statuses (trace W)))
     \<and> ollamaModel W = last ([] # model_writes (trace W))
     \<and> (modelStatus W = Ready \<longrightarrow> model_writes (trace W) \<noteq> [])"
  proof (cases enabled)
    case False
    then show ?thesis
      unfolding W_def by (simp add: checkModelReady_disabled)
  next
    case True
    let ?w0 = "set_status Starting (init_world url enabled)"
    have W: "W = checkLoop env 100 100 1 ?w0"
      unfolding W_def by (rule checkModelReady_enabled [OF True])
    from checkLoop_writes [OF refl, where M = 100 and a = 1 and env = env and N = 100
           and w = ?w0] obtain evs where
      e: "trace W = trace ?w0 @ evs"
        "\<forall>p \<in> set (writes_at (modelStatus ?w0) evs). fst p = ModelFound"
        "ollamaModel W = last (ollamaModel ?w0 # model_writes evs)"
        "modelStatus W = Ready \<longrightarrow> model_writes evs \<noteq> []"
        "length (model_writes evs) = length (filter (\<lambda>s. s = ModelFound) (statuses evs))"
      unfolding W by blast
    have tr: "trace W = SetStatus Starting # evs" using e(1) by simp
    show ?thesis
      using e(2-5) by (simp add: tr writes_at_names)
  qed
  have acc: "accounted env W"
    unfolding W_def by (rule checkModelReady_accounted)
  then have c6: "model_writes (trace W) = fetched_names env 0 (trace W)"
    and c7: "http_calls W = http_count (trace W)"
    by (simp_all add: accounted_def)
  have "coherent (view_of (init_world url enabled)) W"
    unfolding W_def by (rule checkModelReady_coherent)
  then have c8: "views W = replay (view_of (init_world url enabled)) (trace W)"
    by (simp add: coherent_def)
  have c9: "map v_model (views W) = names_over [] (trace W)"
    unfolding c8 replay_names by (simp add: view_of_def)
  from old have c4: "ollamaModel W = last ([] # model_writes (trace W))" by blast
  have c10: "ollamaModel W = last ([] # fetched_names env 0 (trace W))"
    using c4 unfolding c6 .
  note o1 = old [THEN conjunct1]
  note o2 = old [THEN conjunct2, THEN conjunct1]
  note o3 = old [THEN conjunct2, THEN conjunct2, THEN conjunct1]
  note o5 = old [THEN conjunct2, THEN conjunct2, THEN conjunct2, THEN conjunct2]
  have c11: "\<forall>w r w'. getAvailableModel env w = (r, w') \<longrightarrow>
           fetched_name env (http_reply env (http_calls w)) =
             (case r of Inl e \<Rightarrow> None | Inr name \<Rightarrow> Some name)"
  proof (intro allI impI)
    fix w r w' assume g: "getAvailableModel env w = (r, w')"
    from getAvailableModel_run [OF g]
    show "fetched_name env (http_reply env (http_calls w)) =
             (case r of Inl e \<Rightarrow> None | Inr name \<Rightarrow> Some name)"
      by blast
  qed
  show ?thesis
    by (intro conjI o1 o2 o3 c4 o5 c6 c7 c8 c9 c10 c11)
qed

theorem model_name_written_at_model_found_witness:
  "writes_at Initializing (trace (checkModelReady sample_env (init_world sample_url True))) =
     [(ModelFound, ''m1'')]
   \<and> ollamaModel (checkModelReady sample_env (init_world sample_url True)) = ''m1''
   \<and> model_writes (trace (checkModelReady sample_env (init_world sample_url False))) = []
   \<and> ollamaModel (checkModelReady sample_env (init_world sample_url False)) = []
   \<and> fetched_names second_env 0
        (trace (checkModelReady second_env (init_world sample_url True))) = [''m1'', ''m2'']
   \<and> model_writes (trace (checkModelReady second_env (init_world sample_url True))) =
        [''m1'', ''m2'']
   \<and> ollamaModel (checkModelReady second_env (init_world sample_url True)) = ''m2''
   \<and> http_calls (checkModelReady second_env (init_world sample_url True)) = 103"
proof -
  let ?W2 = "checkModelReady second_env (init_world sample_url True)"
  have first: "writes_at Initializing
       (trace (checkModelReady sample_env (init_world sample_url True))) =
       [(ModelFound, ''m1'')]
     \<and> ollamaModel (checkModelReady sample_env (init_world sample_url True)) = ''m1''
     \<and> model_writes (trace (checkModelReady sample_env (init_world sample_url False))) = []
     \<and> ollamaModel (checkModelReady sample_env (init_world sample_url False)) = []"
    using model_name_written_at_model_found [of sample_env sample_url True]
      model_name_written_at_model_found [of sample_env sample_url False]
    by (simp add: sample_run checkModelReady_disabled)
  have found: "fetched_names second_env 0 (trace ?W2) = [''m1'', ''m2'']"
    unfolding second_run
    by (simp add: fetched_names_append probe_rounds_requests fetched_name_def fetch_by_def
          second_env_def sample_env_def sample_model_def sample_tags_body_def
          other_tags_body_def)
  have count: "http_count (trace ?W2) = 103"
    unfolding second_run by (simp add: probe_rounds_requests)
  note th = model_name_written_at_model_found [of second_env sample_url True]
  note tail = th [THEN conjunct2, THEN conjunct2, THEN conjunct2, THEN conjunct2, THEN conjunct2]
  from tail [THEN conjunct1] found
  have writes: "model_writes (trace ?W2) = [''m1'', ''m2'']" by simp
  from tail [THEN conjunct2, THEN conjunct1] count
  have calls: "http_calls ?W2 = 103" by simp
  from tail [THEN conjunct2, THEN conjunct2, THEN conjunct2, THEN conjunct2, THEN conjunct1]
    found
  have name: "ollamaModel ?W2 = ''m2''" by simp
  from first found writes name calls show ?thesis by blast
qed

text \<open>
  C9 as stated does not hold: with the sample service the name is assigned while the status
  is \<^verbatim>\<open>model_found\<close>, before the probe request and before \<^verbatim>\<open>ready\<close> is set.
\<close>

theorem model_name_written_before_ready:
  "trace (checkModelReady sample_env (init_world sample_url True)) =
     [SetStatus Starting, SetStatus CheckingModels, HttpGet (sample_url @ ''/api/tags''),
      SetStatus ModelFound, SetModel ''m1'', SetStatus TestingGeneration,
      HttpPost (sample_url @ ''/api/generate'') \<lparr>Model = ''m1'', Prompt = ''Hi'', Stream = False\<rparr>,
      SetStatus Ready, StoreReady True]
   \<and> writes_at Initializing (trace (checkModelReady sample_env (init_world sample_url True))) =
     [(ModelFound, ''m1'')]
   \<and> ModelFound \<noteq> Ready"
  by (simp add: sample_run)

end
